theory Spec2Isabelle
  imports Complex_Main "HOL-Library.Word"
begin

section \<open>Strings\<close>

text \<open>
  A JavaScript string is a sequence of UTF-16 code units and \<open>.length\<close> counts them, so a
  string whose length or whitespace matters (message content, the input box) is a list of
  16-bit words. Identifiers (user, thread and message ids, usernames, topic names) are only
  compared and concatenated; they are HOL strings.
\<close>

type_synonym jsstring = "16 word list"

text \<open>
  \<open>String.prototype.trim\<close> removes the ECMAScript white space and line terminator code
  units from both ends.
\<close>

definition isWhiteSpace :: "16 word \<Rightarrow> bool" where
  "isWhiteSpace c \<longleftrightarrow>
     c = 0x0009 \<or> c = 0x000A \<or> c = 0x000B \<or> c = 0x000C \<or> c = 0x000D \<or> c = 0x0020 \<or>
     c = 0x00A0 \<or> c = 0x1680 \<or> (0x2000 \<le> c \<and> c \<le> 0x200A) \<or> c = 0x2028 \<or>
     c = 0x2029 \<or> c = 0x202F \<or> c = 0x205F \<or> c = 0x3000 \<or> c = 0xFEFF"

definition trim :: "jsstring \<Rightarrow> jsstring" where
  "trim s = rev (dropWhile isWhiteSpace (rev (dropWhile isWhiteSpace s)))"


section \<open>Client: validation (utils/validation.ts)\<close>

definition MESSAGE_MAX_LENGTH :: nat where
  "MESSAGE_MAX_LENGTH = 5000"

definition validateMessage :: "jsstring \<Rightarrow> string option" where
  "validateMessage content' =
     (let trimmed = trim content'
      in if trimmed = [] then Some ''Message cannot be empty''
         else if length trimmed > MESSAGE_MAX_LENGTH
           then Some ''Message cannot exceed 5000 characters''
         else None)"


section \<open>Messages\<close>

text \<open>
  \<open>MessageEvent\<close> is the object the server returns from \<open>message.send\<close> and pushes to
  subscribers. \<open>createdAt\<close> is a timestamp in milliseconds. The field \<open>id\<close> of the source
  is \<open>id_m\<close> here, and a sender's \<open>id\<close> is \<open>user_id\<close>.
\<close>

record User =
  user_id :: string
  username :: string

record MessageEvent =
  id_m :: string
  content :: jsstring
  createdAt :: nat
  threadId :: string
  sender :: User


section \<open>Client: optimistic sending (components/ChatView.tsx)\<close>

datatype SendStatus = sending | sent | failed

text \<open>
  \<open>OptimisticMessage\<close> has the fields of a message, with the temporary id in \<open>id\<close>, and adds
  \<open>optimisticId\<close>, \<open>status\<close> and the optional \<open>error\<close>.
\<close>

record OptimisticMessage = MessageEvent +
  optimisticId :: string
  status :: SendStatus
  error :: "string option"

text \<open>
  An entry of \<open>localMessages\<close>. \<open>isOptimisticMessage\<close> tests \<open>"status" in msg\<close>: the objects
  built by \<open>handleSend\<close> have that key, the objects that come from the server do not.
\<close>

datatype DisplayMessage = Confirmed MessageEvent | Pending OptimisticMessage

definition isOptimisticMessage :: "DisplayMessage \<Rightarrow> bool" where
  "isOptimisticMessage msg = (case msg of Confirmed m \<Rightarrow> False | Pending m \<Rightarrow> True)"

definition dm_id :: "DisplayMessage \<Rightarrow> string" where
  "dm_id msg = (case msg of Confirmed m \<Rightarrow> id_m m | Pending m \<Rightarrow> id_m m)"

definition dm_content :: "DisplayMessage \<Rightarrow> jsstring" where
  "dm_content msg = (case msg of Confirmed m \<Rightarrow> content m | Pending m \<Rightarrow> content m)"

definition dm_sender :: "DisplayMessage \<Rightarrow> User" where
  "dm_sender msg = (case msg of Confirmed m \<Rightarrow> sender m | Pending m \<Rightarrow> sender m)"

definition dm_status :: "DisplayMessage \<Rightarrow> SendStatus option" where
  "dm_status msg = (case msg of Confirmed m \<Rightarrow> None | Pending m \<Rightarrow> Some (status m))"

text \<open>
  The component state the handlers update: the input box, the displayed list and the
  \<open>Map\<close> of optimistic messages, which iterates in insertion order and is therefore a list
  of key-value pairs with distinct keys.
\<close>

record ChatView =
  newMessage :: jsstring
  localMessages :: "DisplayMessage list"
  optimisticMessages :: "(string \<times> OptimisticMessage) list"

text \<open>The variables of the \<open>message.send\<close> mutation.\<close>

record SendVariables =
  var_threadId :: string
  var_content :: jsstring

text \<open>\<open>Map.prototype.set\<close>: an existing key keeps its position, a new key goes last.\<close>

definition map_set :: "string \<Rightarrow> 'v \<Rightarrow> (string \<times> 'v) list \<Rightarrow> (string \<times> 'v) list" where
  "map_set k v kvs =
     (if k \<in> fst ` set kvs then map (\<lambda>(k', v'). if k' = k then (k', v) else (k', v')) kvs
      else kvs @ [(k, v)])"

text \<open>
  The loop of \<open>onSuccess\<close> over the map: delete the first entry with the sent content and
  status \<open>sending\<close>, then \<open>break\<close>.
\<close>

fun delete_first_sending ::
  "jsstring \<Rightarrow> (string \<times> OptimisticMessage) list \<Rightarrow> (string \<times> OptimisticMessage) list" where
  "delete_first_sending c [] = []"
| "delete_first_sending c ((k, msg) # rest) =
     (if content msg = c \<and> status msg = sending then rest
      else (k, msg) # delete_first_sending c rest)"

text \<open>
  The updater \<open>onSuccess\<close> passes to \<open>setLocalMessages\<close>: drop every optimistic entry with
  the sent content, then append the server's message unless its id is already there.
\<close>

definition onSuccess_local ::
  "MessageEvent \<Rightarrow> SendVariables \<Rightarrow> DisplayMessage list \<Rightarrow> DisplayMessage list" where
  "onSuccess_local serverMessage variables prev =
     (let filtered = filter (\<lambda>m. \<not> isOptimisticMessage m \<or> dm_content m \<noteq> var_content variables) prev
      in if list_ex (\<lambda>m. dm_id m = id_m serverMessage) filtered then filtered
         else filtered @ [Confirmed serverMessage])"

definition onSuccess :: "MessageEvent \<Rightarrow> SendVariables \<Rightarrow> ChatView \<Rightarrow> ChatView" where
  "onSuccess serverMessage variables s =
     s\<lparr>optimisticMessages := delete_first_sending (var_content variables) (optimisticMessages s),
       localMessages := onSuccess_local serverMessage variables (localMessages s),
       newMessage := []\<rparr>"

text \<open>
  The loop of \<open>onError\<close> over the map: mark the first entry with the sent content and status
  \<open>sending\<close> as failed, then \<open>break\<close>. The second argument is \<open>getErrorMessage(error)\<close>.
\<close>

fun fail_first_sending ::
  "jsstring \<Rightarrow> string \<Rightarrow> (string \<times> OptimisticMessage) list \<Rightarrow> (string \<times> OptimisticMessage) list" where
  "fail_first_sending c err [] = []"
| "fail_first_sending c err ((k, msg) # rest) =
     (if content msg = c \<and> status msg = sending
      then (k, msg\<lparr>status := failed, error := Some err\<rparr>) # rest
      else (k, msg) # fail_first_sending c err rest)"

definition onError_local :: "string \<Rightarrow> SendVariables \<Rightarrow> DisplayMessage list \<Rightarrow> DisplayMessage list" where
  "onError_local err variables prev =
     map (\<lambda>m. case m of
            Confirmed c \<Rightarrow> m
          | Pending p \<Rightarrow>
              if content p = var_content variables \<and> status p = sending
              then Pending (p\<lparr>status := failed, error := Some err\<rparr>)
              else m) prev"

definition onError :: "string \<Rightarrow> SendVariables \<Rightarrow> ChatView \<Rightarrow> ChatView" where
  "onError err variables s =
     s\<lparr>optimisticMessages := fail_first_sending (var_content variables) err (optimisticMessages s),
       localMessages := onError_local err variables (localMessages s)\<rparr>"

text \<open>
  The array \<open>localMessages\<close> never holds the same object twice: \<open>handleSend\<close>, \<open>onData\<close>
  and \<open>onSuccess\<close> append an object that was just built or just received, and the other
  updaters map or filter the previous array. Two entries may still agree in every field.
  \<open>prev.find\<close> returns the first entry that satisfies the predicate, and the filter
  \<open>m !== matchingOptimistic\<close>, which compares object identity, therefore drops exactly
  that entry and keeps every other one, also one with the same fields.
\<close>

fun remove_first :: "('a \<Rightarrow> bool) \<Rightarrow> 'a list \<Rightarrow> 'a list" where
  "remove_first P [] = []"
| "remove_first P (x # xs) = (if P x then xs else x # remove_first P xs)"

text \<open>
  The updater \<open>onData\<close> of the \<open>message.onNew\<close> subscription passes to \<open>setLocalMessages\<close>.
\<close>

definition onData_local :: "MessageEvent \<Rightarrow> DisplayMessage list \<Rightarrow> DisplayMessage list" where
  "onData_local message prev =
     (if list_ex (\<lambda>m. dm_id m = id_m message) prev then prev
      else case find (\<lambda>m. isOptimisticMessage m
                          \<and> user_id (dm_sender m) = user_id (sender message)
                          \<and> dm_content m = content message) prev of
             Some matchingOptimistic \<Rightarrow>
               if isOptimisticMessage matchingOptimistic
               then remove_first (\<lambda>m. isOptimisticMessage m
                                      \<and> user_id (dm_sender m) = user_id (sender message)
                                      \<and> dm_content m = content message) prev
                    @ [Confirmed message]
               else prev @ [Confirmed message]
           | None \<Rightarrow> prev @ [Confirmed message])"

definition onData :: "MessageEvent \<Rightarrow> ChatView \<Rightarrow> ChatView" where
  "onData message s = s\<lparr>localMessages := onData_local message (localMessages s)\<rparr>"

text \<open>
  \<open>handleSend\<close>. The thread id is the component's prop, \<open>currentUser\<close> is the result of the
  \<open>auth.me\<close> query (absent while it loads), and the generated optimistic id and the current
  time are arguments. The result is the new state and the variables of the mutation that
  was issued, if one was.
\<close>

definition handleSend ::
  "string \<Rightarrow> User option \<Rightarrow> string \<Rightarrow> nat \<Rightarrow> ChatView \<Rightarrow> ChatView \<times> SendVariables option" where
  "handleSend thread currentUser newOptimisticId now s =
     (if validateMessage (newMessage s) \<noteq> None then (s, None)
      else
        let content' = trim (newMessage s)
        in if content' = [] then (s, None)
           else
             (case currentUser of
                None \<Rightarrow> (s, None)
              | Some u \<Rightarrow>
                  let optimisticMsg =
                        \<lparr>id_m = newOptimisticId, content = content', createdAt = now,
                         threadId = thread,
                         sender = \<lparr>user_id = user_id u, username = username u\<rparr>,
                         optimisticId = newOptimisticId, status = sending, error = None\<rparr>
                  in (s\<lparr>optimisticMessages :=
                          map_set newOptimisticId optimisticMsg (optimisticMessages s),
                        localMessages := localMessages s @ [Pending optimisticMsg],
                        newMessage := []\<rparr>,
                      Some \<lparr>var_threadId = thread, var_content = content'\<rparr>)))"

text \<open>The number of entries of a list that carry a given id.\<close>

definition count_id :: "string \<Rightarrow> DisplayMessage list \<Rightarrow> nat" where
  "count_id i msgs = length (filter (\<lambda>m. dm_id m = i) msgs)"


section \<open>Client: connection manager and reconnection backoff (utils/trpc.ts)\<close>

text \<open>
  The four values of the TypeScript union type \<open>ConnectionState\<close>.
\<close>

datatype ConnectionState = connecting | connected | disconnected | reconnecting

text \<open>
  The class \<open>ConnectionManager\<close>. The fields \<open>state\<close>, \<open>reconnectAttempts\<close> and
  \<open>maxReconnectAttempts\<close> are the ones the state machine reads and writes. The listener
  set is only notified by \<open>setState\<close> and never read back, so it is not part of the record.
  \<open>wsClient\<close> is \<open>null\<close> or the transport client; all the class does with the client is
  call its \<open>close()\<close>, so the client is represented by the number of \<open>close()\<close> calls it
  has received. \<open>reconnectAttempts\<close> is a JavaScript number that only ever holds a count.
\<close>

record ConnectionManager =
  state :: ConnectionState
  reconnectAttempts :: nat
  maxReconnectAttempts :: nat
  wsClient :: "nat option"


definition getState :: "ConnectionManager \<Rightarrow> ConnectionState" where
  "getState cm = state cm"

definition setState :: "ConnectionState \<Rightarrow> ConnectionManager \<Rightarrow> ConnectionManager" where
  "setState st cm = cm\<lparr>state := st\<rparr>"

definition resetReconnectAttempts :: "ConnectionManager \<Rightarrow> ConnectionManager" where
  "resetReconnectAttempts cm = cm\<lparr>reconnectAttempts := 0\<rparr>"

text \<open>\<open>++this.reconnectAttempts\<close>: the incremented count is stored and returned.\<close>

definition incrementReconnectAttempts :: "ConnectionManager \<Rightarrow> nat \<times> ConnectionManager" where
  "incrementReconnectAttempts cm =
     (reconnectAttempts cm + 1, cm\<lparr>reconnectAttempts := reconnectAttempts cm + 1\<rparr>)"

definition getReconnectAttempts :: "ConnectionManager \<Rightarrow> nat" where
  "getReconnectAttempts cm = reconnectAttempts cm"

definition shouldReconnect :: "ConnectionManager \<Rightarrow> bool" where
  "shouldReconnect cm \<longleftrightarrow> reconnectAttempts cm < maxReconnectAttempts cm"


text \<open>
  \<open>reconnect\<close>, which \<open>auth.setToken\<close> and \<open>auth.clearToken\<close> call after they have changed
  the stored token: it closes the client if one is stored and touches no other field.
\<close>

definition reconnect :: "ConnectionManager \<Rightarrow> ConnectionManager" where
  "reconnect cm =
     (case wsClient cm of
        None \<Rightarrow> cm
      | Some closeCalls \<Rightarrow> cm\<lparr>wsClient := Some (Suc closeCalls)\<rparr>)"

text \<open>
  \<open>getAuthToken\<close> reads \<open>localStorage.getItem("token")\<close>, a string or \<open>null\<close>. The test
  \<open>!getAuthToken()\<close> holds for \<open>null\<close> and for the empty string.
\<close>

definition tokenPresent :: "string option \<Rightarrow> bool" where
  "tokenPresent tok = (case tok of None \<Rightarrow> False | Some t \<Rightarrow> t \<noteq> [])"

text \<open>
  The \<open>onOpen\<close> and \<open>onClose\<close> callbacks given to \<open>createWSClient\<close>. Neither branch of
  \<open>onClose\<close> calls a method of the client: reaching the maximum sets the state and logs.
\<close>

definition onOpen :: "ConnectionManager \<Rightarrow> ConnectionManager" where
  "onOpen cm = resetReconnectAttempts (setState connected cm)"

definition onClose :: "string option \<Rightarrow> ConnectionManager \<Rightarrow> ConnectionManager" where
  "onClose tok cm =
     (if \<not> tokenPresent tok then setState disconnected cm
      else let (attempts, cm') = incrementReconnectAttempts cm
           in if shouldReconnect cm' then setState reconnecting cm'
              else setState disconnected cm')"

text \<open>
  What happens to the manager: the transport calls \<open>onOpen\<close> or \<open>onClose\<close> (a close event
  carries the value \<open>getAuthToken()\<close> returns when the callback runs), or a credential
  change calls \<open>reconnect\<close>.
\<close>

datatype ws_event = Open | Close "string option" | Reconnect

fun ws_step :: "ConnectionManager \<Rightarrow> ws_event \<Rightarrow> ConnectionManager" where
  "ws_step cm Open = onOpen cm"
| "ws_step cm (Close tok) = onClose tok cm"
| "ws_step cm Reconnect = reconnect cm"

definition ws_run :: "ConnectionManager \<Rightarrow> ws_event list \<Rightarrow> ConnectionManager" where
  "ws_run cm evs = foldl ws_step cm evs"

definition closeWithToken :: "ws_event \<Rightarrow> bool" where
  "closeWithToken ev =
     (case ev of Open \<Rightarrow> False | Close tok \<Rightarrow> tokenPresent tok | Reconnect \<Rightarrow> False)"

definition isClose :: "ws_event \<Rightarrow> bool" where
  "isClose ev = (case ev of Open \<Rightarrow> False | Close tok \<Rightarrow> True | Reconnect \<Rightarrow> False)"

text \<open>
  \<open>getReconnectDelay\<close>. JavaScript numbers are IEEE doubles; the function is modelled in
  exact real arithmetic, and the value of \<open>Math.random()\<close>, a number in \<open>[0, 1)\<close>, is the
  second argument.
\<close>

definition getReconnectDelay :: "nat \<Rightarrow> real \<Rightarrow> real" where
  "getReconnectDelay attempt random =
     (let baseDelay = 1000;
          maxDelay = 30000;
          delay = min (baseDelay * 2 ^ attempt) maxDelay;
          jitter = delay * 0.2 * (random - 0.5)
      in delay + jitter)"


text \<open>
  The \<open>retryDelayMs\<close> option given to \<open>createWSClient\<close>: the transport asks it for the
  delay before each of its attempts. It returns a delay for every attempt index and does
  not read or write the connection manager.
\<close>

definition retryDelayMs :: "nat \<Rightarrow> real \<Rightarrow> real" where
  "retryDelayMs attemptIndex random = getReconnectDelay attemptIndex random"


section \<open>Server: context, errors and database (trpc.ts, Prisma)\<close>

record JWTPayload =
  userId :: string
  jwt_username :: string

text \<open>
  The request context. Its \<open>prisma\<close> client is the database part of the server state below;
  \<open>user\<close> is the verified token payload or \<open>null\<close>.
\<close>

record Context =
  user :: "JWTPayload option"

text \<open>
  The issues of the zod schema of \<open>message.send\<close>: \<open>min(1, "Message cannot be empty")\<close>
  reports \<open>too_small\<close> with the given message, \<open>max(5000)\<close> reports \<open>too_big\<close> with the
  maximum.
\<close>

datatype zod_issue = too_small string | too_big nat

text \<open>
  What a procedure call can fail with: a \<open>TRPCError\<close> with code \<open>UNAUTHORIZED\<close>,
  \<open>FORBIDDEN\<close>, \<open>NOT_FOUND\<close> or \<open>BAD_REQUEST\<close> and its message, the \<open>BAD_REQUEST\<close> that
  tRPC raises when the input does not parse (with the issues), an error thrown by the
  Prisma client, or an exception thrown by the listener with the given identity while an
  event was dispatched.
\<close>

datatype failure =
    UNAUTHORIZED string
  | FORBIDDEN string
  | NOT_FOUND string
  | BAD_REQUEST string
  | BAD_REQUEST_input "zod_issue list"
  | PrismaError string
  | ListenerThrew nat

record MessageRow =
  row_id :: string
  row_content :: jsstring
  row_createdAt :: nat
  row_threadId :: string
  row_senderId :: string

text \<open>
  A listener registered on \<open>messageEmitter\<close> is one of the two \<open>onMessage\<close> closures. It
  is determined by what it closes over: the thread id of \<open>onNew\<close> or the set
  \<open>userThreadIds\<close> of \<open>onAnyNew\<close>, and the observer \<open>emit\<close> of the subscription. \<open>lid\<close> is
  the identity of the closure, which \<open>messageEmitter.off\<close> compares. \<open>next_ok\<close> tells for
  which events the observer's \<open>emit.next\<close> returns normally; for the others it throws.
\<close>

datatype ListenerFilter = ThreadFilter string | MembershipFilter "string set"

record Listener =
  lid :: nat
  accepts :: ListenerFilter
  next_ok :: "MessageEvent \<Rightarrow> bool"

text \<open>
  The server state: the tables (users, threads with their \<open>updatedAt\<close>, the rows
  \<open>(userId, threadId)\<close> of \<open>thread_participants\<close>, messages), the listener arrays of
  \<open>messageEmitter\<close> by event name, the events each subscription has pushed to its client
  through \<open>emit.next\<close>, and the next closure identity.
\<close>

record Server =
  users :: "User list"
  threads :: "(string \<times> nat) list"
  threadParticipants :: "(string \<times> string) list"
  messages :: "MessageRow list"
  listeners :: "string \<Rightarrow> Listener list"
  streams :: "nat \<Rightarrow> MessageEvent list"
  nextListener :: nat

text \<open>What the resolver of a subscription hands back: enough to run the cleanup function.\<close>

record Subscription =
  sub_topic :: string
  sub_lid :: nat


section \<open>Server: the event emitter (Node's EventEmitter)\<close>

text \<open>
  \<open>messageEmitter\<close> is a Node \<open>EventEmitter\<close>; \<open>on\<close>, \<open>off\<close> and \<open>emit\<close> below follow its
  documented behaviour. \<open>setMaxListeners(100)\<close> only moves the threshold of a warning.
  \<open>messageEmitter.on\<close> appends the listener to the array of the event name.
\<close>

definition on :: "string \<Rightarrow> Listener \<Rightarrow> Server \<Rightarrow> Server" where
  "on topic l s = s\<lparr>listeners := (listeners s)(topic := listeners s topic @ [l])\<rparr>"

text \<open>
  \<open>messageEmitter.off\<close> removes the most recently added instance of the listener from the
  array of the event name, if there is one.
\<close>

fun remove_last_lid :: "nat \<Rightarrow> Listener list \<Rightarrow> Listener list" where
  "remove_last_lid i [] = []"
| "remove_last_lid i (l # ls) =
     (if lid l = i \<and> \<not> list_ex (\<lambda>x. lid x = i) ls then ls
      else l # remove_last_lid i ls)"

definition off :: "string \<Rightarrow> nat \<Rightarrow> Server \<Rightarrow> Server" where
  "off topic i s = s\<lparr>listeners := (listeners s)(topic := remove_last_lid i (listeners s topic))\<rparr>"

text \<open>The test each \<open>onMessage\<close> closure makes before it forwards a message.\<close>

fun passes :: "ListenerFilter \<Rightarrow> MessageEvent \<Rightarrow> bool" where
  "passes (ThreadFilter subscribed) message \<longleftrightarrow> threadId message = subscribed"
| "passes (MembershipFilter userThreadIds) message \<longleftrightarrow> threadId message \<in> userThreadIds"

text \<open>
  One call of an \<open>onMessage\<close> closure: a message that passes the test goes to
  \<open>emit.next\<close>, which pushes it to the client or throws.
\<close>

definition onMessage ::
  "Listener \<Rightarrow> MessageEvent \<Rightarrow> (nat \<Rightarrow> MessageEvent list) \<Rightarrow> failure option \<times> (nat \<Rightarrow> MessageEvent list)" where
  "onMessage l message st =
     (if passes (accepts l) message
      then if next_ok l message then (None, st(lid l := st (lid l) @ [message]))
           else (Some (ListenerThrew (lid l)), st)
      else (None, st))"

text \<open>
  \<open>messageEmitter.emit\<close> calls the listeners of the event name synchronously, in the order
  of registration. It does not catch: an exception thrown by a listener ends the loop and
  leaves \<open>emit\<close>.
\<close>

fun call_listeners ::
  "Listener list \<Rightarrow> MessageEvent \<Rightarrow> (nat \<Rightarrow> MessageEvent list) \<Rightarrow> failure option \<times> (nat \<Rightarrow> MessageEvent list)" where
  "call_listeners [] message st = (None, st)"
| "call_listeners (l # ls) message st =
     (case onMessage l message st of
        (Some exn, st') \<Rightarrow> (Some exn, st')
      | (None, st') \<Rightarrow> call_listeners ls message st')"

definition emit :: "string \<Rightarrow> MessageEvent \<Rightarrow> Server \<Rightarrow> failure option \<times> Server" where
  "emit topic message s =
     (let (exn, st') = call_listeners (listeners s topic) message (streams s)
      in (exn, s\<lparr>streams := st'\<rparr>))"


section \<open>Server: message router (routers/message.ts)\<close>

text \<open>
  \<open>verifyThreadParticipant\<close>: \<open>findUnique\<close> on the pair \<open>(userId, threadId)\<close>; the result is
  the error thrown, if any.
\<close>

definition verifyThreadParticipant :: "JWTPayload \<Rightarrow> string \<Rightarrow> Server \<Rightarrow> failure option" where
  "verifyThreadParticipant u thread s =
     (case find (\<lambda>p. fst p = userId u \<and> snd p = thread) (threadParticipants s) of
        None \<Rightarrow> Some (FORBIDDEN ''You are not a participant in this thread'')
      | Some participant \<Rightarrow> None)"

definition getUserThreadIds :: "JWTPayload \<Rightarrow> Server \<Rightarrow> string set" where
  "getUserThreadIds u s =
     set (map snd (filter (\<lambda>p. fst p = userId u) (threadParticipants s)))"

text \<open>
  The input schema of \<open>message.send\<close>. A request whose \<open>threadId\<close> or \<open>content\<close> is not a
  string is outside the input type; on strings only the two length checks can fail.
\<close>

definition send_input_issues :: "SendVariables \<Rightarrow> zod_issue list" where
  "send_input_issues input =
     (if length (var_content input) < 1 then [too_small ''Message cannot be empty''] else [])
     @ (if length (var_content input) > 5000 then [too_big 5000] else [])"

text \<open>
  \<open>prisma.message.create\<close> with the sender included. The id and \<open>createdAt\<close> that the
  database generates are arguments. The foreign keys require the thread and the sender.
\<close>

definition message_create ::
  "jsstring \<Rightarrow> string \<Rightarrow> string \<Rightarrow> string \<Rightarrow> nat \<Rightarrow> Server \<Rightarrow> failure + MessageEvent \<times> Server" where
  "message_create content' thread senderId newId now s =
     (case find (\<lambda>u. user_id u = senderId) (users s) of
        None \<Rightarrow> Inl (PrismaError ''Foreign key constraint failed'')
      | Some u \<Rightarrow>
          if map_of (threads s) thread = None then Inl (PrismaError ''Foreign key constraint failed'')
          else Inr (\<lparr>id_m = newId, content = content', createdAt = now, threadId = thread,
                     sender = \<lparr>user_id = user_id u, username = username u\<rparr>\<rparr>,
                    s\<lparr>messages := messages s @
                        [\<lparr>row_id = newId, row_content = content', row_createdAt = now,
                          row_threadId = thread, row_senderId = senderId\<rparr>]\<rparr>))"

text \<open>\<open>prisma.thread.update\<close> of \<open>updatedAt\<close>; it throws when the thread does not exist.\<close>

definition thread_update :: "string \<Rightarrow> nat \<Rightarrow> Server \<Rightarrow> failure + Server" where
  "thread_update thread now s =
     (if map_of (threads s) thread = None then Inl (PrismaError ''Record to update not found'')
      else Inr (s\<lparr>threads := map (\<lambda>t. if fst t = thread then (fst t, now) else t) (threads s)\<rparr>))"

text \<open>The two \<open>emit\<close> calls at the end of the \<open>send\<close> resolver.\<close>

definition send_emit :: "string \<Rightarrow> MessageEvent \<Rightarrow> Server \<Rightarrow> (failure + MessageEvent) \<times> Server" where
  "send_emit thread messageEvent s =
     (case emit (''thread:'' @ thread) messageEvent s of
        (Some exn, s') \<Rightarrow> (Inl exn, s')
      | (None, s') \<Rightarrow>
          (case emit ''message:new'' messageEvent s' of
             (Some exn, s'') \<Rightarrow> (Inl exn, s'')
           | (None, s'') \<Rightarrow> (Inr messageEvent, s'')))"

text \<open>
  The resolver of \<open>message.send\<close> (the function given to \<open>.mutation\<close>), for the
  authenticated user \<open>u\<close>. \<open>newId\<close> and \<open>created\<close> are generated by the database, \<open>now\<close>
  is the \<open>new Date()\<close> written to the thread.
\<close>

definition send_resolver ::
  "JWTPayload \<Rightarrow> SendVariables \<Rightarrow> string \<Rightarrow> nat \<Rightarrow> nat \<Rightarrow> Server \<Rightarrow> (failure + MessageEvent) \<times> Server" where
  "send_resolver u input newId created now s =
     (case verifyThreadParticipant u (var_threadId input) s of
        Some err \<Rightarrow> (Inl err, s)
      | None \<Rightarrow>
          (case message_create (var_content input) (var_threadId input) (userId u) newId created s of
             Inl err \<Rightarrow> (Inl err, s)
           | Inr (message, s1) \<Rightarrow>
               (case thread_update (var_threadId input) now s1 of
                  Inl err \<Rightarrow> (Inl err, s1)
                | Inr s2 \<Rightarrow>
                    send_emit (var_threadId input)
                      \<lparr>id_m = id_m message, content = content message,
                       createdAt = createdAt message, threadId = threadId message,
                       sender = sender message\<rparr> s2)))"

text \<open>
  The procedure \<open>message.send\<close>: the authentication middleware of \<open>protectedProcedure\<close>,
  then the input schema, then the resolver.
\<close>

definition send ::
  "Context \<Rightarrow> SendVariables \<Rightarrow> string \<Rightarrow> nat \<Rightarrow> nat \<Rightarrow> Server \<Rightarrow> (failure + MessageEvent) \<times> Server" where
  "send ctx input newId created now s =
     (case user ctx of
        None \<Rightarrow> (Inl (UNAUTHORIZED ''You must be logged in to perform this action''), s)
      | Some u \<Rightarrow>
          if send_input_issues input \<noteq> [] then (Inl (BAD_REQUEST_input (send_input_issues input)), s)
          else send_resolver u input newId created now s)"

text \<open>
  The function given to \<open>observable\<close>, which tRPC runs once the resolver of a subscription
  has returned: it builds the \<open>onMessage\<close> closure and registers it. \<open>observer\<close> is the
  behaviour of the subscription's \<open>emit.next\<close>.
\<close>

definition subscribe_listener ::
  "string \<Rightarrow> ListenerFilter \<Rightarrow> (MessageEvent \<Rightarrow> bool) \<Rightarrow> Server \<Rightarrow> Subscription \<times> Server" where
  "subscribe_listener topic flt observer s =
     (\<lparr>sub_topic = topic, sub_lid = nextListener s\<rparr>,
      on topic \<lparr>lid = nextListener s, accepts = flt, next_ok = observer\<rparr>
        (s\<lparr>nextListener := Suc (nextListener s)\<rparr>))"

text \<open>The cleanup function the observable returns.\<close>

definition unsubscribe :: "Subscription \<Rightarrow> Server \<Rightarrow> Server" where
  "unsubscribe sub s = off (sub_topic sub) (sub_lid sub) s"

text \<open>
  The procedure \<open>message.onNew\<close>. Its input schema accepts every string \<open>threadId\<close>.
\<close>

definition onNew ::
  "Context \<Rightarrow> string \<Rightarrow> (MessageEvent \<Rightarrow> bool) \<Rightarrow> Server \<Rightarrow> (failure + Subscription) \<times> Server" where
  "onNew ctx thread observer s =
     (case user ctx of
        None \<Rightarrow> (Inl (UNAUTHORIZED ''You must be logged in to perform this action''), s)
      | Some u \<Rightarrow>
          (case verifyThreadParticipant u thread s of
             Some err \<Rightarrow> (Inl err, s)
           | None \<Rightarrow>
               (let (sub, s') = subscribe_listener (''thread:'' @ thread) (ThreadFilter thread) observer s
                in (Inr sub, s'))))"

text \<open>The procedure \<open>message.onAnyNew\<close>.\<close>

definition onAnyNew ::
  "Context \<Rightarrow> (MessageEvent \<Rightarrow> bool) \<Rightarrow> Server \<Rightarrow> (failure + Subscription) \<times> Server" where
  "onAnyNew ctx observer s =
     (case user ctx of
        None \<Rightarrow> (Inl (UNAUTHORIZED ''You must be logged in to perform this action''), s)
      | Some u \<Rightarrow>
          (let userThreadIds = getUserThreadIds u s;
               (sub, s') = subscribe_listener ''message:new'' (MembershipFilter userThreadIds) observer s
           in (Inr sub, s')))"


section \<open>Server: creating a thread (routers/thread.ts)\<close>

text \<open>
  The \<open>findFirst\<close> of \<open>thread.create\<close>: a thread in which the caller and the target both
  participate and every participant is one of the two. The table order stands for the
  order in which the database returns rows.
\<close>

definition findExistingThread :: "string \<Rightarrow> string \<Rightarrow> Server \<Rightarrow> (string \<times> nat) option" where
  "findExistingThread me target s =
     find (\<lambda>t. list_ex (\<lambda>p. snd p = fst t \<and> fst p = me) (threadParticipants s)
              \<and> list_ex (\<lambda>p. snd p = fst t \<and> fst p = target) (threadParticipants s)
              \<and> list_all (\<lambda>p. snd p \<noteq> fst t \<or> fst p = me \<or> fst p = target) (threadParticipants s))
       (threads s)"

text \<open>
  The resolver of \<open>thread.create\<close>; the id of the new thread is generated by the database.
  The result is the thread id and \<open>alreadyExists\<close>. The nested create writes the thread
  and one participant row for each of the two users, which must exist and differ.
\<close>

definition thread_create_resolver ::
  "JWTPayload \<Rightarrow> string \<Rightarrow> string \<Rightarrow> nat \<Rightarrow> Server \<Rightarrow> (failure + string \<times> bool) \<times> Server" where
  "thread_create_resolver u uname newThreadId now s =
     (if uname = jwt_username u then (Inl (BAD_REQUEST ''Cannot create a thread with yourself''), s)
      else
        (case find (\<lambda>x. username x = uname) (users s) of
           None \<Rightarrow> (Inl (NOT_FOUND (''User '' @ [CHR 0x22] @ uname @ [CHR 0x22] @ '' not found'')), s)
         | Some targetUser \<Rightarrow>
             (case findExistingThread (userId u) (user_id targetUser) s of
                Some existingThread \<Rightarrow> (Inr (fst existingThread, True), s)
              | None \<Rightarrow>
                  if \<not> list_ex (\<lambda>x. user_id x = userId u) (users s)
                  then (Inl (PrismaError ''Foreign key constraint failed''), s)
                  else if userId u = user_id targetUser
                  then (Inl (PrismaError ''Unique constraint failed''), s)
                  else (Inr (newThreadId, False),
                        s\<lparr>threads := threads s @ [(newThreadId, now)],
                          threadParticipants := threadParticipants s @
                            [(userId u, newThreadId), (user_id targetUser, newThreadId)]\<rparr>))))"

definition thread_create ::
  "Context \<Rightarrow> string \<Rightarrow> string \<Rightarrow> nat \<Rightarrow> Server \<Rightarrow> (failure + string \<times> bool) \<times> Server" where
  "thread_create ctx uname newThreadId now s =
     (case user ctx of
        None \<Rightarrow> (Inl (UNAUTHORIZED ''You must be logged in to perform this action''), s)
      | Some u \<Rightarrow>
          if length uname < 1 then (Inl (BAD_REQUEST_input [too_small ''Username is required'']), s)
          else thread_create_resolver u uname newThreadId now s)"


section \<open>Server: runs\<close>

text \<open>
  The requests that reach the procedures above, with the values the environment supplies
  (generated ids, clock readings, the behaviour of a subscription's observer), and the
  cleanup of a subscription. A run applies them one after the other.
\<close>

datatype action =
    Send Context SendVariables string nat nat
  | ThreadCreate Context string string nat
  | OnNew Context string "MessageEvent \<Rightarrow> bool"
  | OnAnyNew Context "MessageEvent \<Rightarrow> bool"
  | Unsubscribe Subscription

fun step :: "Server \<Rightarrow> action \<Rightarrow> Server" where
  "step s (Send ctx input newId created now) = snd (send ctx input newId created now s)"
| "step s (ThreadCreate ctx uname newThreadId now) = snd (thread_create ctx uname newThreadId now s)"
| "step s (OnNew ctx thread observer) = snd (onNew ctx thread observer s)"
| "step s (OnAnyNew ctx observer) = snd (onAnyNew ctx observer s)"
| "step s (Unsubscribe sub) = unsubscribe sub s"

definition run :: "Server \<Rightarrow> action list \<Rightarrow> Server" where
  "run s acts = foldl step s acts"

text \<open>
  A state is well formed when no registered listener has an identity that is still to be
  handed out and no event has been pushed for such an identity.
\<close>

definition wf_server :: "Server \<Rightarrow> bool" where
  "wf_server s \<longleftrightarrow>
     (\<forall>topic. \<forall>l \<in> set (listeners s topic). lid l < nextListener s)
     \<and> (\<forall>i. nextListener s \<le> i \<longrightarrow> streams s i = [])"

text \<open>
  The operations of the event bus on their own: publishing to a topic, registering and
  deregistering a handler.
\<close>

datatype bus_action =
    Publish string MessageEvent
  | Register string Listener
  | Deregister string nat

fun bus_step :: "Server \<Rightarrow> bus_action \<Rightarrow> Server" where
  "bus_step s (Publish topic message) = snd (emit topic message s)"
| "bus_step s (Register topic l) = on topic l s"
| "bus_step s (Deregister topic i) = off topic i s"

definition bus_run :: "Server \<Rightarrow> bus_action list \<Rightarrow> Server" where
  "bus_run s acts = foldl bus_step s acts"

text \<open>The events published to a topic in a list of bus operations, in order.\<close>

fun published :: "string \<Rightarrow> bus_action list \<Rightarrow> MessageEvent list" where
  "published topic [] = []"
| "published topic (Publish t message # acts) =
     (if t = topic then message # published topic acts else published topic acts)"
| "published topic (Register t l # acts) = published topic acts"
| "published topic (Deregister t i # acts) = published topic acts"

text \<open>
  A bus operation leaves the handler with identity \<open>i\<close> registered: it does not deregister
  it, and a newly registered handler is a new closure with another identity.
\<close>

fun keeps_registered :: "nat \<Rightarrow> bus_action \<Rightarrow> bool" where
  "keeps_registered i (Publish topic message) = True"
| "keeps_registered i (Register topic l) = (lid l \<noteq> i)"
| "keeps_registered i (Deregister topic j) = (j \<noteq> i)"

text \<open>A handler is reliable on an event when it does not throw on it.\<close>

definition reliable_on :: "Listener \<Rightarrow> MessageEvent \<Rightarrow> bool" where
  "reliable_on l message \<longleftrightarrow> (passes (accepts l) message \<longrightarrow> next_ok l message)"


section \<open>Invariants used in the proofs\<close>

text \<open>The handler \<open>L\<close> is registered on the topic, once, behind handlers taken from \<open>pre\<close>.\<close>

definition live_at :: "Listener \<Rightarrow> string \<Rightarrow> Listener list \<Rightarrow> Server \<Rightarrow> bool" where
  "live_at L topic pre s \<longleftrightarrow>
     (\<exists>pre' post'. listeners s topic = pre' @ L # post' \<and> set pre' \<subseteq> set pre
        \<and> lid L \<notin> lid ` set (pre' @ post'))
     \<and> (\<forall>t. t \<noteq> topic \<longrightarrow> lid L \<notin> lid ` set (listeners s t))"

text \<open>
  What stays true of the subscription with identity \<open>i\<close> whose handler filters by the set
  \<open>S\<close>: the identity has been handed out, every registered handler has an identity that has
  been handed out, a handler registered under \<open>i\<close> filters by \<open>S\<close>, and every event pushed
  to the subscription belongs to a thread in \<open>S\<close>.
\<close>

definition snapshot_inv :: "nat \<Rightarrow> string set \<Rightarrow> Server \<Rightarrow> bool" where
  "snapshot_inv i S s \<longleftrightarrow>
     i < nextListener s
     \<and> (\<forall>t. \<forall>l \<in> set (listeners s t). lid l < nextListener s)
     \<and> (\<forall>t. \<forall>l \<in> set (listeners s t). lid l = i \<longrightarrow> accepts l = MembershipFilter S)
     \<and> (\<forall>m \<in> set (streams s i). threadId m \<in> S)"


section \<open>An example state (prisma/seed.ts)\<close>

text \<open>
  The users of the seed script and its sample thread between alice and bob, without the
  three sample messages; nobody is subscribed. The ids stand for generated ones.
\<close>

definition alice :: JWTPayload where
  "alice = \<lparr>userId = ''u-alice'', jwt_username = ''alice''\<rparr>"

definition bob :: JWTPayload where
  "bob = \<lparr>userId = ''u-bob'', jwt_username = ''bob''\<rparr>"

definition charlie :: JWTPayload where
  "charlie = \<lparr>userId = ''u-charlie'', jwt_username = ''charlie''\<rparr>"

definition seeded :: Server where
  "seeded =
     \<lparr>users = [\<lparr>user_id = ''u-alice'', username = ''alice''\<rparr>,
               \<lparr>user_id = ''u-bob'', username = ''bob''\<rparr>,
               \<lparr>user_id = ''u-charlie'', username = ''charlie''\<rparr>],
      threads = [(''t1'', 0)],
      threadParticipants = [(''u-alice'', ''t1''), (''u-bob'', ''t1'')],
      messages = [],
      listeners = (\<lambda>topic. []),
      streams = (\<lambda>i. []),
      nextListener = 0\<rparr>"


text \<open>An event as \<open>message.send\<close> builds it for a message of alice, for the examples.\<close>

definition event :: "string \<Rightarrow> string \<Rightarrow> MessageEvent" where
  "event i thread =
     \<lparr>id_m = i, content = [0x68, 0x69], createdAt = 10, threadId = thread,
      sender = \<lparr>user_id = ''u-alice'', username = ''alice''\<rparr>\<rparr>"


section \<open>Properties of the connection manager\<close>

lemma onClose_max: "maxReconnectAttempts (onClose tok cm) = maxReconnectAttempts cm"
  by (simp add: onClose_def setState_def incrementReconnectAttempts_def Let_def)

lemma onClose_attempts_mono: "reconnectAttempts cm \<le> reconnectAttempts (onClose tok cm)"
  by (simp add: onClose_def setState_def incrementReconnectAttempts_def Let_def)

lemma onClose_attempts_token:
  "tokenPresent tok \<Longrightarrow> reconnectAttempts (onClose tok cm) = Suc (reconnectAttempts cm)"
  by (simp add: onClose_def setState_def incrementReconnectAttempts_def Let_def)

lemma onClose_exhausted:
  "maxReconnectAttempts cm \<le> Suc (reconnectAttempts cm) \<Longrightarrow> state (onClose tok cm) = disconnected"
  by (simp add: onClose_def setState_def incrementReconnectAttempts_def shouldReconnect_def Let_def)

text \<open>No callback closes the client; only \<open>reconnect\<close> does.\<close>

lemma onClose_wsClient: "wsClient (onClose tok cm) = wsClient cm"
  by (simp add: onClose_def setState_def incrementReconnectAttempts_def Let_def)

lemma onOpen_wsClient: "wsClient (onOpen cm) = wsClient cm"
  by (simp add: onOpen_def setState_def resetReconnectAttempts_def)

lemma reconnect_fields:
  "state (reconnect cm) = state cm \<and> reconnectAttempts (reconnect cm) = reconnectAttempts cm
   \<and> maxReconnectAttempts (reconnect cm) = maxReconnectAttempts cm"
  by (simp add: reconnect_def split: option.splits)

lemma ws_run_snoc: "ws_run cm (evs @ [ev]) = ws_step (ws_run cm evs) ev"
  by (simp add: ws_run_def)

lemma ws_run_append: "ws_run cm (evs @ evs') = ws_run (ws_run cm evs) evs'"
  by (simp add: ws_run_def)

lemma callbacks_keep_client:
  "\<forall>ev \<in> set evs. ev \<noteq> Reconnect \<Longrightarrow> wsClient (ws_run cm evs) = wsClient cm"
proof (induction evs rule: rev_induct)
  case Nil
  show ?case by (simp add: ws_run_def)
next
  case (snoc ev evs)
  then show ?case
    by (cases ev) (simp_all add: ws_run_snoc onClose_wsClient onOpen_wsClient)
qed

lemma closes_with_token_attempts:
  "\<forall>ev \<in> set evs. closeWithToken ev \<Longrightarrow>
     reconnectAttempts (ws_run cm evs) = reconnectAttempts cm + length evs
     \<and> maxReconnectAttempts (ws_run cm evs) = maxReconnectAttempts cm"
proof (induction evs rule: rev_induct)
  case Nil
  show ?case by (simp add: ws_run_def)
next
  case (snoc ev evs)
  from snoc.prems obtain tok where ev: "ev = Close tok" and tok: "tokenPresent tok"
    by (cases ev) (simp_all add: closeWithToken_def)
  from snoc have "reconnectAttempts (ws_run cm evs) = reconnectAttempts cm + length evs
      \<and> maxReconnectAttempts (ws_run cm evs) = maxReconnectAttempts cm"
    by simp
  then show ?case
    using ev tok by (simp add: ws_run_snoc onClose_attempts_token onClose_max)
qed

text \<open>
  Once the counter has reached the maximum and the state is \<open>disconnected\<close>, no close
  callback and no call of \<open>reconnect\<close> changes the state.
\<close>

lemma exhausted_stays_disconnected:
  assumes "maxReconnectAttempts cm \<le> reconnectAttempts cm"
    and "state cm = disconnected"
    and "\<forall>ev \<in> set evs. ev \<noteq> Open"
  shows "state (ws_run cm evs) = disconnected
       \<and> maxReconnectAttempts (ws_run cm evs) \<le> reconnectAttempts (ws_run cm evs)"
  using assms(3)
proof (induction evs rule: rev_induct)
  case Nil
  show ?case using assms(1,2) by (simp add: ws_run_def)
next
  case (snoc ev evs)
  then have IH: "state (ws_run cm evs) = disconnected"
    "maxReconnectAttempts (ws_run cm evs) \<le> reconnectAttempts (ws_run cm evs)" by simp_all
  show ?case
  proof (cases ev)
    case Open
    with snoc.prems show ?thesis by simp
  next
    case (Close tok)
    have "maxReconnectAttempts (ws_run cm evs) \<le> Suc (reconnectAttempts (ws_run cm evs))"
      using IH(2) by simp
    then have "state (onClose tok (ws_run cm evs)) = disconnected" by (rule onClose_exhausted)
    moreover have "maxReconnectAttempts (onClose tok (ws_run cm evs))
        \<le> reconnectAttempts (onClose tok (ws_run cm evs))"
      using IH(2) onClose_attempts_mono [of "ws_run cm evs" tok] by (simp add: onClose_max)
    ultimately show ?thesis using Close by (simp add: ws_run_snoc)
  next
    case Reconnect
    with IH reconnect_fields [of "ws_run cm evs"] show ?thesis by (simp add: ws_run_snoc)
  qed
qed

text \<open>
  What the code does establish: after ten consecutive close callbacks that find a token the
  state is \<open>disconnected\<close>, and it stays so as long as no open callback arrives, whatever
  close callbacks and \<open>reconnect\<close> calls follow.
\<close>

lemma ten_closes_disconnected:
  assumes "maxReconnectAttempts cm = 10"
    and "length closes = 10"
    and "\<forall>ev \<in> set closes. closeWithToken ev"
    and "\<forall>ev \<in> set further. ev \<noteq> Open"
  shows "state (ws_run cm (closes @ further)) = disconnected"
proof -
  from assms(2) obtain init ev where closes: "closes = init @ [ev]"
    by (cases closes rule: rev_cases) auto
  let ?cm9 = "ws_run cm init"
  have init_tok: "\<forall>e \<in> set init. closeWithToken e"
    using assms(3) closes by simp
  have "reconnectAttempts ?cm9 = reconnectAttempts cm + length init
      \<and> maxReconnectAttempts ?cm9 = maxReconnectAttempts cm"
    using init_tok by (rule closes_with_token_attempts)
  moreover have "length init = 9"
    using assms(2) closes by simp
  ultimately have ex: "maxReconnectAttempts ?cm9 \<le> Suc (reconnectAttempts ?cm9)"
    using assms(1) by simp
  from assms(3) closes obtain tok where ev: "ev = Close tok"
    by (cases ev) (simp_all add: closeWithToken_def)
  have st10: "state (ws_run cm closes) = disconnected"
    using onClose_exhausted [OF ex, of tok] by (simp add: closes ev ws_run_snoc)
  have "reconnectAttempts (ws_run cm closes) = reconnectAttempts cm + length closes
      \<and> maxReconnectAttempts (ws_run cm closes) = maxReconnectAttempts cm"
    using assms(3) by (rule closes_with_token_attempts)
  then have "maxReconnectAttempts (ws_run cm closes) \<le> reconnectAttempts (ws_run cm closes)"
    using assms(1,2) by simp
  then have "state (ws_run (ws_run cm closes) further) = disconnected"
    using st10 assms(4) exhausted_stays_disconnected by blast
  then show ?thesis by (simp add: ws_run_append)
qed



section \<open>Properties of the reconnection delay\<close>

lemma getReconnectDelay_eq:
  "getReconnectDelay k r = min (1000 * 2 ^ k) 30000 * (0.9 + 0.2 * r)"
  by (simp add: getReconnectDelay_def Let_def algebra_simps)

lemma capped_delay_pos: "0 < min (1000 * 2 ^ k) (30000 :: real)"
  by simp

text \<open>
  Claim C5. For every attempt number \<open>k\<close> and every random draw \<open>r\<close> in \<open>[0, 1)\<close>, the delay
  lies between 0.8 and 1.2 times the capped exponential delay \<open>min (1000 * 2^k) 30000\<close>.
\<close>

theorem C5_reconnect_delay_bounds:
  assumes "0 \<le> r" and "r < 1"
  shows "0.8 * min (1000 * 2 ^ k) 30000 \<le> getReconnectDelay k r
       \<and> getReconnectDelay k r \<le> 1.2 * min (1000 * 2 ^ k) 30000"
proof -
  let ?d = "min (1000 * 2 ^ k) (30000 :: real)"
  have d: "0 < ?d" by (rule capped_delay_pos)
  have "?d * 0.8 \<le> ?d * (0.9 + 0.2 * r)"
    using d assms(1) by (intro mult_left_mono) simp_all
  moreover have "?d * (0.9 + 0.2 * r) \<le> ?d * 1.2"
    using d assms(2) by (intro mult_left_mono) simp_all
  ultimately show ?thesis
    by (simp add: getReconnectDelay_eq mult.commute)
qed

theorem C5_reconnect_delay_bounds_witness:
  "(0::real) \<le> 1/4 \<and> (1/4::real) < 1
   \<and> 0.8 * min (1000 * 2 ^ 3) 30000 \<le> getReconnectDelay 3 (1/4)
   \<and> getReconnectDelay 3 (1/4) \<le> 1.2 * min (1000 * 2 ^ 3) 30000
   \<and> getReconnectDelay 3 (1/4) = 7600"
proof -
  have "0.8 * min (1000 * 2 ^ 3) 30000 \<le> getReconnectDelay 3 (1/4)
       \<and> getReconnectDelay 3 (1/4) \<le> 1.2 * min (1000 * 2 ^ 3) 30000"
    by (rule C5_reconnect_delay_bounds) simp_all
  moreover have "getReconnectDelay 3 (1/4) = 7600"
    by (simp add: getReconnectDelay_def Let_def)
  ultimately show ?thesis by simp
qed

section \<open>Properties of optimistic reconciliation\<close>

lemma dm_simps:
  "dm_id (Confirmed m) = id_m m" "dm_id (Pending p) = id_m p"
  "dm_content (Confirmed m) = content m" "dm_content (Pending p) = content p"
  "dm_sender (Confirmed m) = sender m" "dm_sender (Pending p) = sender p"
  "isOptimisticMessage (Confirmed m) = False" "isOptimisticMessage (Pending p) = True"
  by (simp_all add: dm_id_def dm_content_def dm_sender_def isOptimisticMessage_def)

lemma onData_local_present:
  "list_ex (\<lambda>m. dm_id m = id_m message) prev \<Longrightarrow> onData_local message prev = prev"
  by (simp add: onData_local_def)

lemma set_remove_first: "set (remove_first P xs) \<subseteq> set xs"
  by (induction xs) auto

lemma remove_first_split:
  assumes "find P xs = Some p"
  shows "\<exists>before after. xs = before @ p # after \<and> (\<forall>m \<in> set before. \<not> P m)
           \<and> remove_first P xs = before @ after"
  using assms
proof (induction xs)
  case Nil
  then show ?case by simp
next
  case (Cons x xs)
  show ?case
  proof (cases "P x")
    case True
    with Cons.prems have "x = p" by simp
    with True have "x # xs = [] @ p # xs \<and> (\<forall>m \<in> set []. \<not> P m)
        \<and> remove_first P (x # xs) = [] @ xs" by simp
    then show ?thesis by blast
  next
    case False
    with Cons.prems have "find P xs = Some p" by simp
    from Cons.IH [OF this] obtain before after
      where "xs = before @ p # after" "\<forall>m \<in> set before. \<not> P m"
        "remove_first P xs = before @ after" by blast
    with False have "x # xs = (x # before) @ p # after \<and> (\<forall>m \<in> set (x # before). \<not> P m)
        \<and> remove_first P (x # xs) = (x # before) @ after" by simp
    then show ?thesis by blast
  qed
qed

lemma onData_local_fresh_cases:
  assumes "\<not> list_ex (\<lambda>m. dm_id m = id_m message) prev"
  shows "\<exists>kept. onData_local message prev = kept @ [Confirmed message] \<and> set kept \<subseteq> set prev"
proof -
  let ?P = "\<lambda>m. isOptimisticMessage m \<and> user_id (dm_sender m) = user_id (sender message)
              \<and> dm_content m = content message"
  have "onData_local message prev = remove_first ?P prev @ [Confirmed message]
      \<or> onData_local message prev = prev @ [Confirmed message]"
    using assms by (simp add: onData_local_def split: option.splits)
  then show ?thesis
  proof
    assume "onData_local message prev = remove_first ?P prev @ [Confirmed message]"
    with set_remove_first [of ?P prev] show ?thesis by blast
  next
    assume "onData_local message prev = prev @ [Confirmed message]"
    then show ?thesis by blast
  qed
qed

lemma count_id_append: "count_id i (xs @ ys) = count_id i xs + count_id i ys"
  by (simp add: count_id_def)

lemma count_id_absent: "\<forall>m \<in> set xs. dm_id m \<noteq> i \<Longrightarrow> count_id i xs = 0"
  by (simp add: count_id_def)

lemma count_id_filter_absent: "\<forall>m \<in> set xs. dm_id m \<noteq> i \<Longrightarrow> count_id i (filter P xs) = 0"
  by (simp add: count_id_def)

lemma count_id_Confirmed: "count_id (id_m msg) [Confirmed msg] = 1"
  by (simp add: count_id_def dm_simps)

lemma onSuccess_local_present:
  assumes "\<exists>m \<in> set prev. dm_id m = id_m serverMessage \<and> \<not> (isOptimisticMessage m \<and> dm_content m = var_content variables)"
  shows "onSuccess_local serverMessage variables prev =
         filter (\<lambda>m. \<not> (isOptimisticMessage m \<and> dm_content m = var_content variables)) prev"
  using assms by (auto simp: onSuccess_local_def Let_def list_ex_iff)

lemma onSuccess_local_fresh:
  assumes "\<forall>m \<in> set prev. dm_id m \<noteq> id_m serverMessage"
  shows "onSuccess_local serverMessage variables prev =
         filter (\<lambda>m. \<not> (isOptimisticMessage m \<and> dm_content m = var_content variables)) prev @ [Confirmed serverMessage]"
  using assms by (auto simp: onSuccess_local_def Let_def list_ex_iff)

text \<open>What a list looks like right after a message was installed.\<close>

lemma installed_shape:
  assumes fresh: "\<forall>m \<in> set prev. dm_id m \<noteq> id_m msg"
    and inst: "installed = onData_local msg prev \<or> installed = onSuccess_local msg vars prev"
  shows "\<exists>kept. installed = kept @ [Confirmed msg] \<and> set kept \<subseteq> set prev"
proof -
  from fresh have nex: "\<not> list_ex (\<lambda>m. dm_id m = id_m msg) prev"
    by (simp add: list_ex_iff)
  from inst show ?thesis
  proof
    assume "installed = onData_local msg prev"
    with onData_local_fresh_cases [OF nex] show ?thesis by simp
  next
    assume "installed = onSuccess_local msg vars prev"
    with onSuccess_local_fresh [OF fresh, of vars]
    have "installed = filter (\<lambda>m. \<not> (isOptimisticMessage m \<and> dm_content m = var_content vars)) prev
        @ [Confirmed msg]" by simp
    moreover have "set (filter (\<lambda>m. \<not> (isOptimisticMessage m \<and> dm_content m = var_content vars)) prev)
        \<subseteq> set prev" by auto
    ultimately show ?thesis by blast
  qed
qed

text \<open>
  Claim C3, as the code has it. Let the list hold no entry with the id of \<open>msg\<close>, and let
  \<open>msg\<close> be installed by the push handler or by the confirmation handler. Then a later push
  with the same id leaves the list unchanged. A later confirmation with the same id leaves
  the list unchanged when no optimistic entry with the sent content is in it; in any case
  it adds no entry and keeps, in order, every entry that is not an optimistic entry with
  the sent content. In each of these final states exactly one entry has the id.
\<close>

theorem C3_reconciliation_on_id:
  assumes fresh: "\<forall>m \<in> set prev. dm_id m \<noteq> id_m msg"
    and inst: "installed = onData_local msg prev \<or> installed = onSuccess_local msg vars prev"
    and same: "id_m later = id_m msg"
  shows "onData_local later installed = installed
       \<and> ((\<forall>m \<in> set installed. \<not> (isOptimisticMessage m \<and> dm_content m = var_content vars'))
            \<longrightarrow> onSuccess_local later vars' installed = installed)
       \<and> set (onSuccess_local later vars' installed) \<subseteq> set installed
       \<and> filter (\<lambda>m. \<not> (isOptimisticMessage m \<and> dm_content m = var_content vars'))
             (onSuccess_local later vars' installed) =
           filter (\<lambda>m. \<not> (isOptimisticMessage m \<and> dm_content m = var_content vars')) installed
       \<and> count_id (id_m msg) installed = 1
       \<and> count_id (id_m msg) (onData_local later installed) = 1
       \<and> count_id (id_m msg) (onSuccess_local later vars' installed) = 1"
proof -
  let ?keep = "\<lambda>m. \<not> (isOptimisticMessage m \<and> dm_content m = var_content vars')"
  from installed_shape [OF fresh inst] obtain kept
    where shape: "installed = kept @ [Confirmed msg]" and kept: "set kept \<subseteq> set prev" by blast
  from fresh kept have fresh_kept: "\<forall>m \<in> set kept. dm_id m \<noteq> id_m msg" by blast
  have mem: "Confirmed msg \<in> set installed" by (simp add: shape)
  have ex: "list_ex (\<lambda>m. dm_id m = id_m later) installed"
    unfolding list_ex_iff using mem same by (intro bexI [of _ "Confirmed msg"]) (simp_all add: dm_simps)
  have push: "onData_local later installed = installed"
    using ex by (rule onData_local_present)
  have "\<exists>m \<in> set installed. dm_id m = id_m later \<and> ?keep m"
    using mem same by (intro bexI [of _ "Confirmed msg"]) (simp_all add: dm_simps)
  then have conf: "onSuccess_local later vars' installed = filter ?keep installed"
    by (rule onSuccess_local_present)
  have conf_same: "(\<forall>m \<in> set installed. ?keep m)
            \<longrightarrow> onSuccess_local later vars' installed = installed"
    by (simp add: conf)
  have conf_sub: "set (onSuccess_local later vars' installed) \<subseteq> set installed"
    by (auto simp: conf)
  have conf_keep: "filter ?keep (onSuccess_local later vars' installed) = filter ?keep installed"
    by (simp add: conf)
  have c1: "count_id (id_m msg) installed = 1"
    using fresh_kept by (simp add: shape count_id_absent count_id_append count_id_Confirmed)
  have "count_id (id_m msg) (filter ?keep installed) = 1"
    using fresh_kept by (simp add: shape count_id_filter_absent count_id_append count_id_Confirmed dm_simps)
  then have c3: "count_id (id_m msg) (onSuccess_local later vars' installed) = 1"
    by (simp add: conf)
  from push conf_same conf_sub conf_keep c1 c3 show ?thesis by simp
qed

theorem C3_reconciliation_on_id_witness:
  "onSuccess_local
     \<lparr>id_m = ''m1'', content = [0x68, 0x69], createdAt = 150, threadId = ''t1'',
        sender = \<lparr>user_id = ''u1'', username = ''alice''\<rparr>\<rparr>
     \<lparr>var_threadId = ''t1'', var_content = [0x68, 0x69]\<rparr>
     [Pending \<lparr>id_m = ''optimistic-1'', content = [0x68, 0x69], createdAt = 100, threadId = ''t1'',
           sender = \<lparr>user_id = ''u1'', username = ''alice''\<rparr>,
           optimisticId = ''optimistic-1'', status = sending, error = None\<rparr>]
   = [Confirmed \<lparr>id_m = ''m1'', content = [0x68, 0x69], createdAt = 150, threadId = ''t1'',
        sender = \<lparr>user_id = ''u1'', username = ''alice''\<rparr>\<rparr>]
   \<and> onData_local
     \<lparr>id_m = ''m1'', content = [0x68, 0x69], createdAt = 150, threadId = ''t1'',
        sender = \<lparr>user_id = ''u1'', username = ''alice''\<rparr>\<rparr>
     [Confirmed \<lparr>id_m = ''m1'', content = [0x68, 0x69], createdAt = 150, threadId = ''t1'',
        sender = \<lparr>user_id = ''u1'', username = ''alice''\<rparr>\<rparr>]
   = [Confirmed \<lparr>id_m = ''m1'', content = [0x68, 0x69], createdAt = 150, threadId = ''t1'',
        sender = \<lparr>user_id = ''u1'', username = ''alice''\<rparr>\<rparr>]
   \<and> onSuccess_local
     \<lparr>id_m = ''m1'', content = [0x68, 0x69], createdAt = 150, threadId = ''t1'',
        sender = \<lparr>user_id = ''u1'', username = ''alice''\<rparr>\<rparr>
     \<lparr>var_threadId = ''t1'', var_content = [0x68, 0x69]\<rparr>
     [Confirmed \<lparr>id_m = ''m1'', content = [0x68, 0x69], createdAt = 150, threadId = ''t1'',
        sender = \<lparr>user_id = ''u1'', username = ''alice''\<rparr>\<rparr>]
   = [Confirmed \<lparr>id_m = ''m1'', content = [0x68, 0x69], createdAt = 150, threadId = ''t1'',
        sender = \<lparr>user_id = ''u1'', username = ''alice''\<rparr>\<rparr>]
   \<and> count_id ''m1''
     [Confirmed \<lparr>id_m = ''m1'', content = [0x68, 0x69], createdAt = 150, threadId = ''t1'',
        sender = \<lparr>user_id = ''u1'', username = ''alice''\<rparr>\<rparr>] = 1"
proof -
  let ?m1 = "\<lparr>id_m = ''m1'', content = [0x68, 0x69], createdAt = 150, threadId = ''t1'',
        sender = \<lparr>user_id = ''u1'', username = ''alice''\<rparr>\<rparr>"
  let ?vars = "\<lparr>var_threadId = ''t1'', var_content = [0x68, 0x69 :: 16 word]\<rparr>"
  let ?prev = "[Pending \<lparr>id_m = ''optimistic-1'', content = [0x68, 0x69], createdAt = 100, threadId = ''t1'',
           sender = \<lparr>user_id = ''u1'', username = ''alice''\<rparr>,
           optimisticId = ''optimistic-1'', status = sending, error = None\<rparr>]"
  have fresh: "\<forall>m \<in> set ?prev. dm_id m \<noteq> id_m ?m1" by (simp add: dm_simps)
  have installed: "onSuccess_local ?m1 ?vars ?prev = [Confirmed ?m1]"
    by (simp add: onSuccess_local_def dm_simps)
  then have inst: "[Confirmed ?m1] = onData_local ?m1 ?prev
            \<or> [Confirmed ?m1] = onSuccess_local ?m1 ?vars ?prev" by simp
  have none_left: "\<forall>m \<in> set [Confirmed ?m1].
      \<not> (isOptimisticMessage m \<and> dm_content m = var_content ?vars)" by (simp add: dm_simps)
  from C3_reconciliation_on_id [OF fresh inst refl, of ?vars] none_left
  have "onData_local ?m1 [Confirmed ?m1] = [Confirmed ?m1]"
    and "onSuccess_local ?m1 ?vars [Confirmed ?m1] = [Confirmed ?m1]"
    and "count_id (id_m ?m1) [Confirmed ?m1] = 1"
    by blast+
  with installed show ?thesis by simp
qed

text \<open>
  The claim as written fails for a later confirmation. Alice's first ``hi'' failed and is
  shown as failed; she sends ``hi'' again. The push of the new message \<open>m2\<close> installs it in
  place of the first matching optimistic entry, which is the failed one. The confirmation
  for \<open>m2\<close> finds the id present and still changes the list: it drops the second entry.
\<close>

theorem C3_later_confirmation_counterexample:
  "onData_local
     \<lparr>id_m = ''m2'', content = [0x68, 0x69], createdAt = 250, threadId = ''t1'',
      sender = \<lparr>user_id = ''u1'', username = ''alice''\<rparr>\<rparr>
     [Pending \<lparr>id_m = ''optimistic-1'', content = [0x68, 0x69], createdAt = 100, threadId = ''t1'',
        sender = \<lparr>user_id = ''u1'', username = ''alice''\<rparr>,
        optimisticId = ''optimistic-1'', status = failed, error = Some ''Network error''\<rparr>,
      Pending \<lparr>id_m = ''optimistic-2'', content = [0x68, 0x69], createdAt = 200, threadId = ''t1'',
        sender = \<lparr>user_id = ''u1'', username = ''alice''\<rparr>,
        optimisticId = ''optimistic-2'', status = sending, error = None\<rparr>]
   = [Pending \<lparr>id_m = ''optimistic-2'', content = [0x68, 0x69], createdAt = 200, threadId = ''t1'',
        sender = \<lparr>user_id = ''u1'', username = ''alice''\<rparr>,
        optimisticId = ''optimistic-2'', status = sending, error = None\<rparr>,
      Confirmed \<lparr>id_m = ''m2'', content = [0x68, 0x69], createdAt = 250, threadId = ''t1'',
        sender = \<lparr>user_id = ''u1'', username = ''alice''\<rparr>\<rparr>]
   \<and> onSuccess_local
     \<lparr>id_m = ''m2'', content = [0x68, 0x69], createdAt = 250, threadId = ''t1'',
      sender = \<lparr>user_id = ''u1'', username = ''alice''\<rparr>\<rparr>
     \<lparr>var_threadId = ''t1'', var_content = [0x68, 0x69]\<rparr>
     [Pending \<lparr>id_m = ''optimistic-2'', content = [0x68, 0x69], createdAt = 200, threadId = ''t1'',
        sender = \<lparr>user_id = ''u1'', username = ''alice''\<rparr>,
        optimisticId = ''optimistic-2'', status = sending, error = None\<rparr>,
      Confirmed \<lparr>id_m = ''m2'', content = [0x68, 0x69], createdAt = 250, threadId = ''t1'',
        sender = \<lparr>user_id = ''u1'', username = ''alice''\<rparr>\<rparr>]
   = [Confirmed \<lparr>id_m = ''m2'', content = [0x68, 0x69], createdAt = 250, threadId = ''t1'',
        sender = \<lparr>user_id = ''u1'', username = ''alice''\<rparr>\<rparr>]
   \<and> [Confirmed \<lparr>id_m = ''m2'', content = [0x68, 0x69], createdAt = 250, threadId = ''t1'',
        sender = \<lparr>user_id = ''u1'', username = ''alice''\<rparr>\<rparr>]
   \<noteq> [Pending \<lparr>id_m = ''optimistic-2'', content = [0x68, 0x69], createdAt = 200, threadId = ''t1'',
        sender = \<lparr>user_id = ''u1'', username = ''alice''\<rparr>,
        optimisticId = ''optimistic-2'', status = sending, error = None\<rparr>,
      Confirmed \<lparr>id_m = ''m2'', content = [0x68, 0x69], createdAt = 250, threadId = ''t1'',
        sender = \<lparr>user_id = ''u1'', username = ''alice''\<rparr>\<rparr>]"
  by (simp add: onData_local_def onSuccess_local_def dm_simps)

lemma find_placeholder:
  assumes "find P prev = Some p"
  shows "p \<in> set prev \<and> P p"
  using assms by (auto simp: find_Some_iff)

text \<open>
  Claim C4, as the code has it. Let the list hold no entry with the pushed id and let
  \<open>placeholder\<close> be the first optimistic entry with the pushed sender id and content. The
  push handler removes that one entry, keeps all the others in order and appends the pushed
  message. The confirmation handler applied afterwards, for the same content, leaves that
  list unchanged when \<open>placeholder\<close> was the only optimistic entry with that content; in any
  case it adds no entry and keeps, in order, every entry that is not an optimistic entry
  with that content.
\<close>

theorem C4_push_then_confirmation:
  assumes fresh: "\<forall>m \<in> set prev. dm_id m \<noteq> id_m msg"
    and ph: "find (\<lambda>m. isOptimisticMessage m
                      \<and> user_id (dm_sender m) = user_id (sender msg)
                      \<and> dm_content m = content msg) prev = Some placeholder"
    and vars: "var_content variables = content msg"
  shows "(\<exists>before after. prev = before @ placeholder # after
            \<and> (\<forall>m \<in> set before. \<not> (isOptimisticMessage m
                      \<and> user_id (dm_sender m) = user_id (sender msg)
                      \<and> dm_content m = content msg))
            \<and> onData_local msg prev = before @ after @ [Confirmed msg])
       \<and> (length (filter (\<lambda>m. isOptimisticMessage m \<and> dm_content m = content msg) prev) = 1
            \<longrightarrow> onSuccess_local msg variables (onData_local msg prev) = onData_local msg prev)
       \<and> set (onSuccess_local msg variables (onData_local msg prev)) \<subseteq> set (onData_local msg prev)
       \<and> filter (\<lambda>m. \<not> (isOptimisticMessage m \<and> dm_content m = content msg))
             (onSuccess_local msg variables (onData_local msg prev)) =
           filter (\<lambda>m. \<not> (isOptimisticMessage m \<and> dm_content m = content msg)) (onData_local msg prev)"
proof -
  let ?pushed = "onData_local msg prev"
  let ?P = "\<lambda>m. isOptimisticMessage m \<and> user_id (dm_sender m) = user_id (sender msg)
              \<and> dm_content m = content msg"
  let ?Q = "\<lambda>m. isOptimisticMessage m \<and> dm_content m = content msg"
  let ?keep = "\<lambda>m. \<not> (isOptimisticMessage m \<and> dm_content m = content msg)"
  from find_placeholder [OF ph] have opt: "isOptimisticMessage placeholder"
    and Qp: "?Q placeholder" by simp_all
  from remove_first_split [OF ph] obtain before after
    where split: "prev = before @ placeholder # after"
      and first: "\<forall>m \<in> set before. \<not> ?P m"
      and removed: "remove_first ?P prev = before @ after" by blast
  from fresh have "\<not> list_ex (\<lambda>m. dm_id m = id_m msg) prev"
    by (simp add: list_ex_iff)
  then have "?pushed = remove_first ?P prev @ [Confirmed msg]"
    using ph opt by (simp add: onData_local_def)
  then have push: "?pushed = before @ after @ [Confirmed msg]"
    by (simp add: removed)
  have shape: "\<exists>before after. prev = before @ placeholder # after
      \<and> (\<forall>m \<in> set before. \<not> ?P m) \<and> ?pushed = before @ after @ [Confirmed msg]"
    using split first push by blast
  have "\<exists>m \<in> set ?pushed. dm_id m = id_m msg
          \<and> \<not> (isOptimisticMessage m \<and> dm_content m = var_content variables)"
    unfolding push by (intro bexI [of _ "Confirmed msg"]) (simp_all add: dm_simps)
  then have conf: "onSuccess_local msg variables ?pushed = filter ?keep ?pushed"
    using onSuccess_local_present [of ?pushed msg variables] by (simp add: vars)
  have same: "onSuccess_local msg variables ?pushed = ?pushed"
    if only: "length (filter ?Q prev) = 1"
  proof -
    have "length (filter ?Q prev) = length (filter ?Q before) + 1 + length (filter ?Q after)"
      using Qp by (simp add: split)
    with only have "filter ?Q before = []" "filter ?Q after = []" by simp_all
    then have "\<forall>m \<in> set (before @ after). ?keep m"
      by (auto simp: filter_empty_conv)
    then have "\<forall>m \<in> set ?pushed. ?keep m"
      unfolding push by (auto simp: dm_simps)
    then have "filter ?keep ?pushed = ?pushed" by (simp only: filter_True)
    with conf show ?thesis by simp
  qed
  have sub: "set (onSuccess_local msg variables ?pushed) \<subseteq> set ?pushed"
    by (auto simp: conf)
  have keep: "filter ?keep (onSuccess_local msg variables ?pushed) = filter ?keep ?pushed"
    by (simp add: conf)
  from shape same sub keep show ?thesis by blast
qed

theorem C4_push_then_confirmation_witness:
  "onData_local
     \<lparr>id_m = ''m1'', content = [0x68, 0x69], createdAt = 150, threadId = ''t1'',
      sender = \<lparr>user_id = ''u1'', username = ''alice''\<rparr>\<rparr>
     [Confirmed \<lparr>id_m = ''m0'', content = [0x79, 0x6F], createdAt = 50, threadId = ''t1'',
        sender = \<lparr>user_id = ''u2'', username = ''bob''\<rparr>\<rparr>,
      Pending \<lparr>id_m = ''optimistic-1'', content = [0x68, 0x69], createdAt = 100, threadId = ''t1'',
        sender = \<lparr>user_id = ''u1'', username = ''alice''\<rparr>,
        optimisticId = ''optimistic-1'', status = sending, error = None\<rparr>]
   = [Confirmed \<lparr>id_m = ''m0'', content = [0x79, 0x6F], createdAt = 50, threadId = ''t1'',
        sender = \<lparr>user_id = ''u2'', username = ''bob''\<rparr>\<rparr>,
      Confirmed \<lparr>id_m = ''m1'', content = [0x68, 0x69], createdAt = 150, threadId = ''t1'',
      sender = \<lparr>user_id = ''u1'', username = ''alice''\<rparr>\<rparr>]
   \<and> onSuccess_local
     \<lparr>id_m = ''m1'', content = [0x68, 0x69], createdAt = 150, threadId = ''t1'',
      sender = \<lparr>user_id = ''u1'', username = ''alice''\<rparr>\<rparr>
     \<lparr>var_threadId = ''t1'', var_content = [0x68, 0x69]\<rparr>
     [Confirmed \<lparr>id_m = ''m0'', content = [0x79, 0x6F], createdAt = 50, threadId = ''t1'',
        sender = \<lparr>user_id = ''u2'', username = ''bob''\<rparr>\<rparr>,
      Confirmed \<lparr>id_m = ''m1'', content = [0x68, 0x69], createdAt = 150, threadId = ''t1'',
      sender = \<lparr>user_id = ''u1'', username = ''alice''\<rparr>\<rparr>]
   = [Confirmed \<lparr>id_m = ''m0'', content = [0x79, 0x6F], createdAt = 50, threadId = ''t1'',
        sender = \<lparr>user_id = ''u2'', username = ''bob''\<rparr>\<rparr>,
      Confirmed \<lparr>id_m = ''m1'', content = [0x68, 0x69], createdAt = 150, threadId = ''t1'',
      sender = \<lparr>user_id = ''u1'', username = ''alice''\<rparr>\<rparr>]"
proof -
  let ?m1 = "\<lparr>id_m = ''m1'', content = [0x68, 0x69], createdAt = 150, threadId = ''t1'',
      sender = \<lparr>user_id = ''u1'', username = ''alice''\<rparr>\<rparr>"
  let ?m0 = "\<lparr>id_m = ''m0'', content = [0x79, 0x6F], createdAt = 50, threadId = ''t1'',
        sender = \<lparr>user_id = ''u2'', username = ''bob''\<rparr>\<rparr>"
  let ?o1 = "\<lparr>id_m = ''optimistic-1'', content = [0x68, 0x69], createdAt = 100, threadId = ''t1'',
        sender = \<lparr>user_id = ''u1'', username = ''alice''\<rparr>,
        optimisticId = ''optimistic-1'', status = sending, error = None\<rparr>"
  let ?vars = "\<lparr>var_threadId = ''t1'', var_content = [0x68, 0x69 :: 16 word]\<rparr>"
  let ?prev = "[Confirmed ?m0, Pending ?o1]"
  have fresh: "\<forall>m \<in> set ?prev. dm_id m \<noteq> id_m ?m1" by (simp add: dm_simps)
  have ph: "find (\<lambda>m. isOptimisticMessage m
                      \<and> user_id (dm_sender m) = user_id (sender ?m1)
                      \<and> dm_content m = content ?m1) ?prev = Some (Pending ?o1)"
    by (simp add: dm_simps)
  have vars: "var_content ?vars = content ?m1" by simp
  have only: "length (filter (\<lambda>m. isOptimisticMessage m \<and> dm_content m = content ?m1) ?prev) = 1"
    by (simp add: dm_simps)
  have pushed: "onData_local ?m1 ?prev = [Confirmed ?m0, Confirmed ?m1]"
    by (simp add: onData_local_def dm_simps)
  from C4_push_then_confirmation [OF fresh ph vars] only
  have "onSuccess_local ?m1 ?vars (onData_local ?m1 ?prev) = onData_local ?m1 ?prev"
    by blast
  with pushed show ?thesis by simp
qed

text \<open>
  Two placeholders that agree in every field are two entries: the push removes the first
  and keeps the second.
\<close>

lemma onData_local_equal_placeholders:
  "onData_local
     \<lparr>id_m = ''m1'', content = [0x68, 0x69], createdAt = 150, threadId = ''t1'',
      sender = \<lparr>user_id = ''u1'', username = ''alice''\<rparr>\<rparr>
     [Pending \<lparr>id_m = ''optimistic-1'', content = [0x68, 0x69], createdAt = 100, threadId = ''t1'',
        sender = \<lparr>user_id = ''u1'', username = ''alice''\<rparr>,
        optimisticId = ''optimistic-1'', status = sending, error = None\<rparr>,
      Pending \<lparr>id_m = ''optimistic-1'', content = [0x68, 0x69], createdAt = 100, threadId = ''t1'',
        sender = \<lparr>user_id = ''u1'', username = ''alice''\<rparr>,
        optimisticId = ''optimistic-1'', status = sending, error = None\<rparr>]
   = [Pending \<lparr>id_m = ''optimistic-1'', content = [0x68, 0x69], createdAt = 100, threadId = ''t1'',
        sender = \<lparr>user_id = ''u1'', username = ''alice''\<rparr>,
        optimisticId = ''optimistic-1'', status = sending, error = None\<rparr>,
      Confirmed \<lparr>id_m = ''m1'', content = [0x68, 0x69], createdAt = 150, threadId = ''t1'',
      sender = \<lparr>user_id = ''u1'', username = ''alice''\<rparr>\<rparr>]"
  by (simp add: onData_local_def dm_simps)

text \<open>
  The claim as written fails when a second placeholder with the same content is pending.
  Alice sends ``hi'' twice; the push of the first message \<open>m1\<close> replaces the first
  placeholder; the confirmation for \<open>m1\<close> finds the id present and still changes the list:
  it drops the second placeholder.
\<close>

theorem C4_second_placeholder_counterexample:
  "onData_local
     \<lparr>id_m = ''m1'', content = [0x68, 0x69], createdAt = 150, threadId = ''t1'',
      sender = \<lparr>user_id = ''u1'', username = ''alice''\<rparr>\<rparr>
     [Pending \<lparr>id_m = ''optimistic-1'', content = [0x68, 0x69], createdAt = 100, threadId = ''t1'',
        sender = \<lparr>user_id = ''u1'', username = ''alice''\<rparr>,
        optimisticId = ''optimistic-1'', status = sending, error = None\<rparr>,
      Pending \<lparr>id_m = ''optimistic-2'', content = [0x68, 0x69], createdAt = 120, threadId = ''t1'',
        sender = \<lparr>user_id = ''u1'', username = ''alice''\<rparr>,
        optimisticId = ''optimistic-2'', status = sending, error = None\<rparr>]
   = [Pending \<lparr>id_m = ''optimistic-2'', content = [0x68, 0x69], createdAt = 120, threadId = ''t1'',
        sender = \<lparr>user_id = ''u1'', username = ''alice''\<rparr>,
        optimisticId = ''optimistic-2'', status = sending, error = None\<rparr>,
      Confirmed \<lparr>id_m = ''m1'', content = [0x68, 0x69], createdAt = 150, threadId = ''t1'',
        sender = \<lparr>user_id = ''u1'', username = ''alice''\<rparr>\<rparr>]
   \<and> onSuccess_local
     \<lparr>id_m = ''m1'', content = [0x68, 0x69], createdAt = 150, threadId = ''t1'',
      sender = \<lparr>user_id = ''u1'', username = ''alice''\<rparr>\<rparr>
     \<lparr>var_threadId = ''t1'', var_content = [0x68, 0x69]\<rparr>
     [Pending \<lparr>id_m = ''optimistic-2'', content = [0x68, 0x69], createdAt = 120, threadId = ''t1'',
        sender = \<lparr>user_id = ''u1'', username = ''alice''\<rparr>,
        optimisticId = ''optimistic-2'', status = sending, error = None\<rparr>,
      Confirmed \<lparr>id_m = ''m1'', content = [0x68, 0x69], createdAt = 150, threadId = ''t1'',
        sender = \<lparr>user_id = ''u1'', username = ''alice''\<rparr>\<rparr>]
   = [Confirmed \<lparr>id_m = ''m1'', content = [0x68, 0x69], createdAt = 150, threadId = ''t1'',
        sender = \<lparr>user_id = ''u1'', username = ''alice''\<rparr>\<rparr>]
   \<and> [Confirmed \<lparr>id_m = ''m1'', content = [0x68, 0x69], createdAt = 150, threadId = ''t1'',
        sender = \<lparr>user_id = ''u1'', username = ''alice''\<rparr>\<rparr>]
   \<noteq> [Pending \<lparr>id_m = ''optimistic-2'', content = [0x68, 0x69], createdAt = 120, threadId = ''t1'',
        sender = \<lparr>user_id = ''u1'', username = ''alice''\<rparr>,
        optimisticId = ''optimistic-2'', status = sending, error = None\<rparr>,
      Confirmed \<lparr>id_m = ''m1'', content = [0x68, 0x69], createdAt = 150, threadId = ''t1'',
        sender = \<lparr>user_id = ''u1'', username = ''alice''\<rparr>\<rparr>]"
  by (simp add: onData_local_def onSuccess_local_def dm_simps)

text \<open>The two lists of the counterexamples arise from \<open>handleSend\<close> and \<open>onError\<close>.\<close>

lemma trim_hi: "trim [0x68, 0x69] = [0x68, 0x69]"
  by (simp add: trim_def isWhiteSpace_def)

lemma two_identical_sends_reachable:
  "localMessages (fst (handleSend ''t1'' (Some \<lparr>user_id = ''u1'', username = ''alice''\<rparr>) ''optimistic-2'' 120
      ((fst (handleSend ''t1'' (Some \<lparr>user_id = ''u1'', username = ''alice''\<rparr>) ''optimistic-1'' 100
          \<lparr>newMessage = [0x68, 0x69], localMessages = [], optimisticMessages = []\<rparr>))
        \<lparr>newMessage := [0x68, 0x69]\<rparr>)))
   = [Pending \<lparr>id_m = ''optimistic-1'', content = [0x68, 0x69], createdAt = 100, threadId = ''t1'',
        sender = \<lparr>user_id = ''u1'', username = ''alice''\<rparr>,
        optimisticId = ''optimistic-1'', status = sending, error = None\<rparr>,
      Pending \<lparr>id_m = ''optimistic-2'', content = [0x68, 0x69], createdAt = 120, threadId = ''t1'',
        sender = \<lparr>user_id = ''u1'', username = ''alice''\<rparr>,
        optimisticId = ''optimistic-2'', status = sending, error = None\<rparr>]"
  by (simp add: handleSend_def validateMessage_def trim_hi MESSAGE_MAX_LENGTH_def Let_def map_set_def)

lemma failed_then_resent_reachable:
  "localMessages (fst (handleSend ''t1'' (Some \<lparr>user_id = ''u1'', username = ''alice''\<rparr>) ''optimistic-2'' 200
      ((onError ''Network error'' \<lparr>var_threadId = ''t1'', var_content = [0x68, 0x69]\<rparr>
         (fst (handleSend ''t1'' (Some \<lparr>user_id = ''u1'', username = ''alice''\<rparr>) ''optimistic-1'' 100
          \<lparr>newMessage = [0x68, 0x69], localMessages = [], optimisticMessages = []\<rparr>)))
        \<lparr>newMessage := [0x68, 0x69]\<rparr>)))
   = [Pending \<lparr>id_m = ''optimistic-1'', content = [0x68, 0x69], createdAt = 100, threadId = ''t1'',
        sender = \<lparr>user_id = ''u1'', username = ''alice''\<rparr>,
        optimisticId = ''optimistic-1'', status = failed, error = Some ''Network error''\<rparr>,
      Pending \<lparr>id_m = ''optimistic-2'', content = [0x68, 0x69], createdAt = 200, threadId = ''t1'',
        sender = \<lparr>user_id = ''u1'', username = ''alice''\<rparr>,
        optimisticId = ''optimistic-2'', status = sending, error = None\<rparr>]"
  by (simp add: handleSend_def validateMessage_def trim_hi MESSAGE_MAX_LENGTH_def Let_def map_set_def
      onError_def onError_local_def)

section \<open>Properties of validation and authorization\<close>

lemma verify_not_participant:
  "(userId u, thread) \<notin> set (threadParticipants s) \<Longrightarrow>
     verifyThreadParticipant u thread s = Some (FORBIDDEN ''You are not a participant in this thread'')"
proof -
  assume np: "(userId u, thread) \<notin> set (threadParticipants s)"
  have "find (\<lambda>p. fst p = userId u \<and> snd p = thread) (threadParticipants s) = None"
    using np by (auto simp: find_None_iff)
  then show ?thesis by (simp add: verifyThreadParticipant_def)
qed

lemma verify_participant:
  "(userId u, thread) \<in> set (threadParticipants s) \<Longrightarrow> verifyThreadParticipant u thread s = None"
proof -
  assume p: "(userId u, thread) \<in> set (threadParticipants s)"
  have "find (\<lambda>p. fst p = userId u \<and> snd p = thread) (threadParticipants s) \<noteq> None"
    using p by (auto simp: find_None_iff)
  then show ?thesis by (auto simp: verifyThreadParticipant_def split: option.splits)
qed

text \<open>
  Claim C1. When an authenticated caller is not a recorded participant of the thread,
  \<open>message.onNew\<close> fails with \<open>FORBIDDEN\<close> and returns the server state as it was: no
  handler has been registered on the emitter, no closure identity has been handed out and
  there is no subscription whose stream could carry an event.
\<close>

theorem C1_onNew_forbidden:
  assumes "user ctx = Some u"
    and "(userId u, thread) \<notin> set (threadParticipants s)"
  shows "onNew ctx thread observer s =
           (Inl (FORBIDDEN ''You are not a participant in this thread''), s)"
  using assms by (simp add: onNew_def verify_not_participant)

theorem C1_onNew_forbidden_witness:
  "fst (onNew \<lparr>user = Some charlie\<rparr> ''t1'' (\<lambda>message. True) seeded) =
     Inl (FORBIDDEN ''You are not a participant in this thread'')
   \<and> listeners (snd (onNew \<lparr>user = Some charlie\<rparr> ''t1'' (\<lambda>message. True) seeded)) ''thread:t1'' = []
   \<and> nextListener (snd (onNew \<lparr>user = Some charlie\<rparr> ''t1'' (\<lambda>message. True) seeded)) = 0
   \<and> fst (onNew \<lparr>user = Some alice\<rparr> ''t1'' (\<lambda>message. True) seeded) =
     Inr \<lparr>sub_topic = ''thread:t1'', sub_lid = 0\<rparr>"
proof -
  have "user \<lparr>user = Some charlie\<rparr> = Some charlie" by simp
  moreover have "(userId charlie, ''t1'') \<notin> set (threadParticipants seeded)"
    by (simp add: charlie_def seeded_def)
  ultimately have "onNew \<lparr>user = Some charlie\<rparr> ''t1'' (\<lambda>message. True) seeded =
      (Inl (FORBIDDEN ''You are not a participant in this thread''), seeded)"
    by (rule C1_onNew_forbidden)
  moreover have "listeners seeded ''thread:t1'' = []" "nextListener seeded = 0"
    by (simp_all add: seeded_def)
  moreover have "fst (onNew \<lparr>user = Some alice\<rparr> ''t1'' (\<lambda>message. True) seeded) =
     Inr \<lparr>sub_topic = ''thread:t1'', sub_lid = 0\<rparr>"
    by (simp add: onNew_def verifyThreadParticipant_def alice_def seeded_def subscribe_listener_def)
  ultimately show ?thesis by simp
qed

lemma send_input_issues_empty_iff:
  "send_input_issues input = [] \<longleftrightarrow> 1 \<le> length (var_content input) \<and> length (var_content input) \<le> 5000"
  by (cases "var_content input") (auto simp: send_input_issues_def)

text \<open>
  Claim C10, as the code has it. A \<open>message.send\<close> by an authenticated user who is not a
  participant of the thread always fails and returns the server state as it was: no message
  row, no change of the thread's \<open>updatedAt\<close>, no event pushed on either channel. The
  error is \<open>FORBIDDEN\<close> when the input passes the schema, that is for a content of 1 to 5000
  code units.
\<close>

theorem C10_send_forbidden:
  assumes "user ctx = Some u"
    and "(userId u, var_threadId input) \<notin> set (threadParticipants s)"
  shows "(1 \<le> length (var_content input) \<and> length (var_content input) \<le> 5000 \<longrightarrow>
            send ctx input newId created now s =
              (Inl (FORBIDDEN ''You are not a participant in this thread''), s))
       \<and> isl (fst (send ctx input newId created now s))
       \<and> snd (send ctx input newId created now s) = s"
  using assms
  by (simp add: send_def send_resolver_def verify_not_participant send_input_issues_empty_iff)

theorem C10_send_forbidden_witness:
  "fst (send \<lparr>user = Some charlie\<rparr> \<lparr>var_threadId = ''t1'', var_content = [0x68, 0x69]\<rparr>
          ''m1'' 10 11 seeded) = Inl (FORBIDDEN ''You are not a participant in this thread'')
   \<and> messages (snd (send \<lparr>user = Some charlie\<rparr> \<lparr>var_threadId = ''t1'', var_content = [0x68, 0x69]\<rparr>
          ''m1'' 10 11 seeded)) = []
   \<and> threads (snd (send \<lparr>user = Some charlie\<rparr> \<lparr>var_threadId = ''t1'', var_content = [0x68, 0x69]\<rparr>
          ''m1'' 10 11 seeded)) = [(''t1'', 0)]
   \<and> messages (snd (send \<lparr>user = Some alice\<rparr> \<lparr>var_threadId = ''t1'', var_content = [0x68, 0x69]\<rparr>
          ''m1'' 10 11 seeded)) =
        [\<lparr>row_id = ''m1'', row_content = [0x68, 0x69], row_createdAt = 10,
          row_threadId = ''t1'', row_senderId = ''u-alice''\<rparr>]
   \<and> threads (snd (send \<lparr>user = Some alice\<rparr> \<lparr>var_threadId = ''t1'', var_content = [0x68, 0x69]\<rparr>
          ''m1'' 10 11 seeded)) = [(''t1'', 11)]"
proof -
  let ?input = "\<lparr>var_threadId = ''t1'', var_content = [0x68, 0x69 :: 16 word]\<rparr>"
  have "user \<lparr>user = Some charlie\<rparr> = Some charlie" by simp
  moreover have "(userId charlie, var_threadId ?input) \<notin> set (threadParticipants seeded)"
    by (simp add: charlie_def seeded_def)
  ultimately have "(1 \<le> length (var_content ?input) \<and> length (var_content ?input) \<le> 5000 \<longrightarrow>
            send \<lparr>user = Some charlie\<rparr> ?input ''m1'' 10 11 seeded =
              (Inl (FORBIDDEN ''You are not a participant in this thread''), seeded))
       \<and> isl (fst (send \<lparr>user = Some charlie\<rparr> ?input ''m1'' 10 11 seeded))
       \<and> snd (send \<lparr>user = Some charlie\<rparr> ?input ''m1'' 10 11 seeded) = seeded"
    by (rule C10_send_forbidden)
  then have "send \<lparr>user = Some charlie\<rparr> ?input ''m1'' 10 11 seeded =
              (Inl (FORBIDDEN ''You are not a participant in this thread''), seeded)"
    by simp
  moreover have "messages seeded = []" "threads seeded = [(''t1'', 0)]"
    by (simp_all add: seeded_def)
  moreover have "messages (snd (send \<lparr>user = Some alice\<rparr> ?input ''m1'' 10 11 seeded)) =
        [\<lparr>row_id = ''m1'', row_content = [0x68, 0x69], row_createdAt = 10,
          row_threadId = ''t1'', row_senderId = ''u-alice''\<rparr>]"
    "threads (snd (send \<lparr>user = Some alice\<rparr> ?input ''m1'' 10 11 seeded)) = [(''t1'', 11)]"
    by (simp_all add: send_def send_input_issues_def send_resolver_def verifyThreadParticipant_def
        alice_def seeded_def message_create_def thread_update_def send_emit_def emit_def)
  ultimately show ?thesis by simp
qed

text \<open>
  The error is not always \<open>FORBIDDEN\<close>: the input schema runs before the resolver, so an
  empty content sent by charlie, who is not in thread \<open>t1\<close>, is rejected as a bad request.
\<close>

theorem C10_invalid_content_counterexample:
  "fst (send \<lparr>user = Some charlie\<rparr> \<lparr>var_threadId = ''t1'', var_content = []\<rparr> ''m1'' 10 11 seeded)
     = Inl (BAD_REQUEST_input [too_small ''Message cannot be empty''])
   \<and> (userId charlie, ''t1'') \<notin> set (threadParticipants seeded)"
  by (simp add: send_def send_input_issues_def charlie_def seeded_def)

text \<open>
  Claim C9, as the code has it. For an authenticated caller, \<open>message.send\<close> with an empty
  content fails with the validation issue ``Message cannot be empty'' and with a content of
  more than 5000 code units fails with the \<open>too_big\<close> issue, in both cases without touching
  the state; the schema raises no issue exactly for lengths 1 to 5000, and then the
  resolver runs. On the client, \<open>validateMessage\<close> accepts exactly the contents whose
  trimmed form has length 1 to 5000.
\<close>

theorem C9_content_length_validation:
  assumes "user ctx = Some u"
  shows "(var_content input = [] \<longrightarrow>
            send ctx input newId created now s =
              (Inl (BAD_REQUEST_input [too_small ''Message cannot be empty'']), s))
       \<and> (5000 < length (var_content input) \<longrightarrow>
            send ctx input newId created now s = (Inl (BAD_REQUEST_input [too_big 5000]), s))
       \<and> (send_input_issues input = []) =
            (1 \<le> length (var_content input) \<and> length (var_content input) \<le> 5000)
       \<and> (1 \<le> length (var_content input) \<and> length (var_content input) \<le> 5000 \<longrightarrow>
            send ctx input newId created now s = send_resolver u input newId created now s)
       \<and> (validateMessage c = None) =
            (1 \<le> length (trim c) \<and> length (trim c) \<le> 5000)"
proof -
  have a: "var_content input = [] \<longrightarrow>
            send ctx input newId created now s =
              (Inl (BAD_REQUEST_input [too_small ''Message cannot be empty'']), s)"
    using assms by (simp add: send_def send_input_issues_def)
  have b: "5000 < length (var_content input) \<longrightarrow>
            send ctx input newId created now s = (Inl (BAD_REQUEST_input [too_big 5000]), s)"
    using assms by (simp add: send_def send_input_issues_def)
  have c: "1 \<le> length (var_content input) \<and> length (var_content input) \<le> 5000 \<longrightarrow>
            send ctx input newId created now s = send_resolver u input newId created now s"
    using assms by (simp add: send_def send_input_issues_empty_iff)
  have d: "(validateMessage c = None) =
            (1 \<le> length (trim c) \<and> length (trim c) \<le> 5000)"
    by (cases "trim c") (simp_all add: validateMessage_def MESSAGE_MAX_LENGTH_def Let_def)
  from a b c d send_input_issues_empty_iff [of input] show ?thesis
    by simp
qed

theorem C9_content_length_validation_witness:
  "fst (send \<lparr>user = Some alice\<rparr> \<lparr>var_threadId = ''t1'', var_content = []\<rparr> ''m1'' 10 11 seeded)
     = Inl (BAD_REQUEST_input [too_small ''Message cannot be empty''])
   \<and> fst (send \<lparr>user = Some alice\<rparr> \<lparr>var_threadId = ''t1'', var_content = replicate 5001 0x61\<rparr>
        ''m1'' 10 11 seeded)
     = Inl (BAD_REQUEST_input [too_big 5000])
   \<and> send \<lparr>user = Some alice\<rparr> \<lparr>var_threadId = ''t1'', var_content = replicate 5000 0x61\<rparr>
        ''m1'' 10 11 seeded
     = send_resolver alice \<lparr>var_threadId = ''t1'', var_content = replicate 5000 0x61\<rparr>
        ''m1'' 10 11 seeded
   \<and> validateMessage [0x20, 0x20, 0x20] = Some ''Message cannot be empty''
   \<and> validateMessage ([0x20] @ replicate 5000 0x61 @ [0x20]) = None
   \<and> validateMessage (replicate 5001 0x61) = Some ''Message cannot exceed 5000 characters''"
proof -
  let ?ctx = "\<lparr>user = Some alice\<rparr>"
  have u: "user ?ctx = Some alice" by simp
  have "fst (send ?ctx \<lparr>var_threadId = ''t1'', var_content = []\<rparr> ''m1'' 10 11 seeded)
     = Inl (BAD_REQUEST_input [too_small ''Message cannot be empty''])"
    using C9_content_length_validation [OF u, where input = "\<lparr>var_threadId = ''t1'', var_content = []\<rparr>" and newId = "''m1''"
        and created = 10 and now = 11 and s = seeded and c = "[]"]
    by simp
  moreover have "fst (send ?ctx \<lparr>var_threadId = ''t1'', var_content = replicate 5001 0x61\<rparr>
        ''m1'' 10 11 seeded) = Inl (BAD_REQUEST_input [too_big 5000])"
    using C9_content_length_validation [OF u, where input = "\<lparr>var_threadId = ''t1'', var_content = replicate 5001 0x61\<rparr>" and newId = "''m1''"
        and created = 10 and now = 11 and s = seeded and c = "[]"]
    by simp
  moreover have "send ?ctx \<lparr>var_threadId = ''t1'', var_content = replicate 5000 0x61\<rparr> ''m1'' 10 11 seeded
     = send_resolver alice \<lparr>var_threadId = ''t1'', var_content = replicate 5000 0x61\<rparr> ''m1'' 10 11 seeded"
    using C9_content_length_validation [OF u, where input = "\<lparr>var_threadId = ''t1'', var_content = replicate 5000 0x61\<rparr>" and newId = "''m1''"
        and created = 10 and now = 11 and s = seeded and c = "[]"]
    by simp
  moreover have "validateMessage [0x20, 0x20, 0x20] = Some ''Message cannot be empty''"
    by (simp add: validateMessage_def trim_def isWhiteSpace_def)
  moreover have "trim ([0x20] @ replicate 5000 0x61 @ [0x20]) = replicate 5000 0x61"
    by (simp add: trim_def isWhiteSpace_def dropWhile_append)
  then have "validateMessage ([0x20] @ replicate 5000 0x61 @ [0x20]) = None"
    using C9_content_length_validation [OF u, where c = "[0x20] @ replicate 5000 0x61 @ [0x20]"]
    by simp
  moreover have "trim (replicate 5001 0x61) = replicate 5001 0x61"
    by (simp add: trim_def isWhiteSpace_def dropWhile_append)
  then have "validateMessage (replicate 5001 0x61) = Some ''Message cannot exceed 5000 characters''"
    by (simp add: validateMessage_def MESSAGE_MAX_LENGTH_def)
  ultimately show ?thesis by simp
qed

text \<open>
  Without authentication the claim as written fails: the middleware of
  \<open>protectedProcedure\<close> runs before the input schema, so an anonymous send with an empty
  content is rejected as unauthorized, not with a validation error.
\<close>

theorem C9_anonymous_send_counterexample:
  "fst (send \<lparr>user = None\<rparr> \<lparr>var_threadId = ''t1'', var_content = []\<rparr> ''m1'' 10 11 seeded)
     = Inl (UNAUTHORIZED ''You must be logged in to perform this action'')
   \<and> send_input_issues \<lparr>var_threadId = ''t1'', var_content = []\<rparr>
     = [too_small ''Message cannot be empty'']"
  by (simp add: send_def send_input_issues_def)

text \<open>
  The order of the three stages of \<open>message.send\<close> in general: no user, then an input
  that does not parse, then the resolver.
\<close>

lemma send_unauthenticated:
  "user ctx = None \<Longrightarrow>
     send ctx input newId created now s =
       (Inl (UNAUTHORIZED ''You must be logged in to perform this action''), s)"
  by (simp add: send_def)

lemma send_invalid_input:
  "user ctx = Some u \<Longrightarrow> send_input_issues input \<noteq> [] \<Longrightarrow>
     send ctx input newId created now s = (Inl (BAD_REQUEST_input (send_input_issues input)), s)"
  by (simp add: send_def)

text \<open>The event a successful \<open>send\<close> has published carries the thread id of the input.\<close>

lemma message_create_event:
  assumes "message_create c thread senderId newId created s = Inr (message, s1)"
  shows "threadId message = thread \<and> id_m message = newId \<and> content message = c"
  using assms by (auto simp: message_create_def split: option.splits if_splits)

lemma send_emit_event:
  assumes "send_emit thread m s = (Inr ev, s')"
  shows "ev = m"
  using assms by (auto simp: send_emit_def split: prod.splits option.splits)

lemma send_resolver_event:
  assumes "send_resolver u input newId created now s = (Inr ev, s')"
  shows "threadId ev = var_threadId input \<and> id_m ev = newId \<and> content ev = var_content input"
proof -
  from assms obtain message s1 s2
    where mc: "message_create (var_content input) (var_threadId input) (userId u) newId created s
                 = Inr (message, s1)"
      and se: "send_emit (var_threadId input)
                 \<lparr>id_m = id_m message, content = content message, createdAt = createdAt message,
                  threadId = threadId message, sender = sender message\<rparr> s2 = (Inr ev, s')"
    by (auto simp: send_resolver_def split: option.splits sum.splits prod.splits)
  from send_emit_event [OF se] message_create_event [OF mc] show ?thesis by simp
qed


section \<open>Properties of event dispatch\<close>

lemma onMessage_other: "i \<noteq> lid l \<Longrightarrow> snd (onMessage l e st) i = st i"
  by (simp add: onMessage_def)

lemma onMessage_reliable:
  "reliable_on l e \<Longrightarrow>
     onMessage l e st = (None, if passes (accepts l) e then st(lid l := st (lid l) @ [e]) else st)"
  by (simp add: onMessage_def reliable_on_def)

lemma onMessage_throws:
  "passes (accepts l) e \<Longrightarrow> \<not> next_ok l e \<Longrightarrow> onMessage l e st = (Some (ListenerThrew (lid l)), st)"
  by (simp add: onMessage_def)

lemma call_listeners_other:
  "i \<notin> lid ` set ls \<Longrightarrow> snd (call_listeners ls e st) i = st i"
proof (induction ls arbitrary: st)
  case Nil
  show ?case by simp
next
  case (Cons l ls)
  then have i: "i \<noteq> lid l" and rest: "i \<notin> lid ` set ls" by auto
  show ?case
  proof (cases "onMessage l e st")
    case (Pair r st')
    have st': "st' i = st i" using onMessage_other [OF i, of e st] Pair by simp
    show ?thesis
    proof (cases r)
      case None
      with Pair st' Cons.IH [OF rest, of st'] show ?thesis by simp
    next
      case (Some exn)
      with Pair st' show ?thesis by simp
    qed
  qed
qed

lemma call_listeners_reliable:
  "\<forall>l \<in> set ls. reliable_on l e \<Longrightarrow> fst (call_listeners ls e st) = None"
  by (induction ls arbitrary: st) (simp_all add: onMessage_reliable)

lemma call_listeners_reliable_stream:
  assumes "\<forall>l \<in> set ls. reliable_on l e" and "distinct (map lid ls)" and "l \<in> set ls"
  shows "snd (call_listeners ls e st) (lid l) = st (lid l) @ (if passes (accepts l) e then [e] else [])"
  using assms
proof (induction ls arbitrary: st)
  case Nil
  then show ?case by simp
next
  case (Cons x xs)
  let ?st' = "if passes (accepts x) e then st(lid x := st (lid x) @ [e]) else st"
  have step: "call_listeners (x # xs) e st = call_listeners xs e ?st'"
    using Cons.prems(1) by (simp add: onMessage_reliable)
  show ?case
  proof (cases "l = x")
    case True
    have "lid x \<notin> lid ` set xs" using Cons.prems(2) by auto
    then have "snd (call_listeners xs e ?st') (lid x) = ?st' (lid x)"
      by (rule call_listeners_other)
    with True step show ?thesis by simp
  next
    case False
    with Cons.prems have l: "l \<in> set xs" by auto
    have "lid x \<notin> lid ` set xs" using Cons.prems(2) by auto
    with l have ne: "lid l \<noteq> lid x" by (metis imageI)
    have "snd (call_listeners xs e ?st') (lid l) = ?st' (lid l) @ (if passes (accepts l) e then [e] else [])"
      using Cons.IH [of ?st'] Cons.prems l by simp
    with step ne show ?thesis by simp
  qed
qed

lemma call_listeners_append:
  "call_listeners (xs @ ys) e st =
     (case call_listeners xs e st of
        (Some exn, st') \<Rightarrow> (Some exn, st')
      | (None, st') \<Rightarrow> call_listeners ys e st')"
  by (induction xs arbitrary: st) (auto split: prod.splits option.splits)

lemma call_listeners_throw_at:
  assumes pre: "\<forall>l \<in> set pre. reliable_on l e"
    and h: "passes (accepts h) e" "\<not> next_ok h e"
  shows "call_listeners (pre @ h # post) e st =
           (Some (ListenerThrew (lid h)), snd (call_listeners pre e st))"
proof -
  obtain st' where p: "call_listeners pre e st = (None, st')"
    using call_listeners_reliable [OF pre, of st] by (cases "call_listeners pre e st") auto
  then show ?thesis
    using h by (simp add: call_listeners_append onMessage_throws)
qed

text \<open>
  Claim C7, as the code has it. \<open>emit\<close> does not isolate handlers. Let the handlers of a
  topic be \<open>pre @ h # post\<close> with distinct identities, let no handler in \<open>pre\<close> throw on the
  event, and let \<open>h\<close> accept the event and throw. Then the exception of \<open>h\<close> leaves \<open>emit\<close>;
  every handler in \<open>pre\<close> has pushed the event if it accepts it; \<open>h\<close> and every handler in
  \<open>post\<close> have pushed nothing; and when the topic is the thread topic of a \<open>send\<close>, the
  exception reaches the caller of \<open>send\<close>.
\<close>

theorem C7_throwing_handler_stops_dispatch:
  assumes reg: "listeners s topic = pre @ h # post"
    and ids: "distinct (map lid (pre @ h # post))"
    and pre: "\<forall>l \<in> set pre. reliable_on l message"
    and h: "passes (accepts h) message" "\<not> next_ok h message"
  shows "fst (emit topic message s) = Some (ListenerThrew (lid h))
       \<and> (\<forall>l \<in> set pre. streams (snd (emit topic message s)) (lid l) =
             streams s (lid l) @ (if passes (accepts l) message then [message] else []))
       \<and> (\<forall>l \<in> set (h # post). streams (snd (emit topic message s)) (lid l) = streams s (lid l))
       \<and> (topic = ''thread:'' @ thread \<longrightarrow>
             fst (send_emit thread message s) = Inl (ListenerThrew (lid h)))"
proof -
  let ?st = "snd (call_listeners pre message (streams s))"
  have call: "call_listeners (listeners s topic) message (streams s) = (Some (ListenerThrew (lid h)), ?st)"
    unfolding reg using pre h by (rule call_listeners_throw_at)
  then have em: "emit topic message s = (Some (ListenerThrew (lid h)), s\<lparr>streams := ?st\<rparr>)"
    by (simp add: emit_def)
  have dpre: "distinct (map lid pre)" using ids by simp
  have before: "\<forall>l \<in> set pre. ?st (lid l) =
      streams s (lid l) @ (if passes (accepts l) message then [message] else [])"
    using call_listeners_reliable_stream [OF pre dpre] by blast
  have after: "\<forall>l \<in> set (h # post). ?st (lid l) = streams s (lid l)"
  proof
    fix l assume "l \<in> set (h # post)"
    then have "lid l \<notin> lid ` set pre" using ids by auto
    then show "?st (lid l) = streams s (lid l)" by (rule call_listeners_other)
  qed
  have sender: "topic = ''thread:'' @ thread \<longrightarrow>
      fst (send_emit thread message s) = Inl (ListenerThrew (lid h))"
    using em by (auto simp: send_emit_def)
  from em before after sender show ?thesis by simp
qed

lemmas eval_defs =
  run_def send_def send_input_issues_def send_resolver_def verifyThreadParticipant_def
  message_create_def thread_update_def send_emit_def emit_def onMessage_def
  onNew_def onAnyNew_def subscribe_listener_def on_def off_def unsubscribe_def
  getUserThreadIds_def thread_create_def thread_create_resolver_def findExistingThread_def
  alice_def bob_def charlie_def seeded_def

lemma three_subscribers:
  "listeners (run seeded
      [OnNew \<lparr>user = Some bob\<rparr> ''t1'' (\<lambda>message. True),
       OnNew \<lparr>user = Some alice\<rparr> ''t1'' (\<lambda>message. False),
       OnNew \<lparr>user = Some bob\<rparr> ''t1'' (\<lambda>message. True)]) ''thread:t1''
   = [\<lparr>lid = 0, accepts = ThreadFilter ''t1'', next_ok = (\<lambda>message. True)\<rparr>]
     @ \<lparr>lid = 1, accepts = ThreadFilter ''t1'', next_ok = (\<lambda>message. False)\<rparr>
     # [\<lparr>lid = 2, accepts = ThreadFilter ''t1'', next_ok = (\<lambda>message. True)\<rparr>]"
  by (simp add: eval_defs)

lemma three_subscribers_streams:
  "streams (run seeded
      [OnNew \<lparr>user = Some bob\<rparr> ''t1'' (\<lambda>message. True),
       OnNew \<lparr>user = Some alice\<rparr> ''t1'' (\<lambda>message. False),
       OnNew \<lparr>user = Some bob\<rparr> ''t1'' (\<lambda>message. True)]) = (\<lambda>i. [])"
  by (simp add: eval_defs)

theorem C7_throwing_handler_stops_dispatch_witness:
  "fst (emit ''thread:t1'' (event ''m1'' ''t1'') (run seeded
      [OnNew \<lparr>user = Some bob\<rparr> ''t1'' (\<lambda>message. True),
       OnNew \<lparr>user = Some alice\<rparr> ''t1'' (\<lambda>message. False),
       OnNew \<lparr>user = Some bob\<rparr> ''t1'' (\<lambda>message. True)])) = Some (ListenerThrew 1)
   \<and> streams (snd (emit ''thread:t1'' (event ''m1'' ''t1'') (run seeded
      [OnNew \<lparr>user = Some bob\<rparr> ''t1'' (\<lambda>message. True),
       OnNew \<lparr>user = Some alice\<rparr> ''t1'' (\<lambda>message. False),
       OnNew \<lparr>user = Some bob\<rparr> ''t1'' (\<lambda>message. True)]))) 0 = [event ''m1'' ''t1'']
   \<and> streams (snd (emit ''thread:t1'' (event ''m1'' ''t1'') (run seeded
      [OnNew \<lparr>user = Some bob\<rparr> ''t1'' (\<lambda>message. True),
       OnNew \<lparr>user = Some alice\<rparr> ''t1'' (\<lambda>message. False),
       OnNew \<lparr>user = Some bob\<rparr> ''t1'' (\<lambda>message. True)]))) 2 = []
   \<and> fst (send_emit ''t1'' (event ''m1'' ''t1'') (run seeded
      [OnNew \<lparr>user = Some bob\<rparr> ''t1'' (\<lambda>message. True),
       OnNew \<lparr>user = Some alice\<rparr> ''t1'' (\<lambda>message. False),
       OnNew \<lparr>user = Some bob\<rparr> ''t1'' (\<lambda>message. True)])) = Inl (ListenerThrew 1)"
proof -
  let ?s = "run seeded
      [OnNew \<lparr>user = Some bob\<rparr> ''t1'' (\<lambda>message. True),
       OnNew \<lparr>user = Some alice\<rparr> ''t1'' (\<lambda>message. False),
       OnNew \<lparr>user = Some bob\<rparr> ''t1'' (\<lambda>message. True)]"
  let ?l0 = "\<lparr>lid = 0, accepts = ThreadFilter ''t1'', next_ok = (\<lambda>message. True)\<rparr>"
  let ?l1 = "\<lparr>lid = 1, accepts = ThreadFilter ''t1'', next_ok = (\<lambda>message. False)\<rparr>"
  let ?l2 = "\<lparr>lid = 2, accepts = ThreadFilter ''t1'', next_ok = (\<lambda>message. True)\<rparr>"
  have reg: "listeners ?s ''thread:t1'' = [?l0] @ ?l1 # [?l2]" by (rule three_subscribers)
  have ids: "distinct (map lid ([?l0] @ ?l1 # [?l2]))" by simp
  have pre: "\<forall>l \<in> set [?l0]. reliable_on l (event ''m1'' ''t1'')" by (simp add: reliable_on_def)
  have h: "passes (accepts ?l1) (event ''m1'' ''t1'')" "\<not> next_ok ?l1 (event ''m1'' ''t1'')" by (simp_all add: event_def)
  have "fst (emit ''thread:t1'' (event ''m1'' ''t1'') ?s) = Some (ListenerThrew (lid ?l1))
       \<and> (\<forall>l \<in> set [?l0]. streams (snd (emit ''thread:t1'' (event ''m1'' ''t1'') ?s)) (lid l) =
             streams ?s (lid l) @ (if passes (accepts l) (event ''m1'' ''t1'') then [event ''m1'' ''t1''] else []))
       \<and> (\<forall>l \<in> set (?l1 # [?l2]). streams (snd (emit ''thread:t1'' (event ''m1'' ''t1'') ?s)) (lid l) = streams ?s (lid l))
       \<and> (''thread:t1'' = ''thread:'' @ ''t1'' \<longrightarrow>
             fst (send_emit ''t1'' (event ''m1'' ''t1'') ?s) = Inl (ListenerThrew (lid ?l1)))"
    using reg ids pre h by (rule C7_throwing_handler_stops_dispatch)
  then show ?thesis
    by (simp add: three_subscribers_streams event_def)
qed

text \<open>
  The claim as written fails: alice and bob are subscribed to thread \<open>t1\<close>, in this order,
  and the observer of alice's subscription throws. When bob sends a message, \<open>send\<close> fails
  with the exception of alice's handler and bob's own subscription receives nothing.
\<close>

theorem C7_no_isolation_counterexample:
  "fst (send \<lparr>user = Some bob\<rparr> \<lparr>var_threadId = ''t1'', var_content = [0x68, 0x69]\<rparr> ''m1'' 10 11
     (run seeded
       [OnNew \<lparr>user = Some alice\<rparr> ''t1'' (\<lambda>message. False),
        OnNew \<lparr>user = Some bob\<rparr> ''t1'' (\<lambda>message. True)])) = Inl (ListenerThrew 0)
   \<and> streams (snd (send \<lparr>user = Some bob\<rparr> \<lparr>var_threadId = ''t1'', var_content = [0x68, 0x69]\<rparr> ''m1'' 10 11
     (run seeded
       [OnNew \<lparr>user = Some alice\<rparr> ''t1'' (\<lambda>message. False),
        OnNew \<lparr>user = Some bob\<rparr> ''t1'' (\<lambda>message. True)]))) 1 = []
   \<and> map lid (listeners (run seeded
       [OnNew \<lparr>user = Some alice\<rparr> ''t1'' (\<lambda>message. False),
        OnNew \<lparr>user = Some bob\<rparr> ''t1'' (\<lambda>message. True)]) ''thread:t1'') = [0, 1]"
  by (simp add: eval_defs)

lemma set_remove_last_lid: "set (remove_last_lid i ls) \<subseteq> set ls"
  by (induction ls) auto

lemma remove_last_lid_split:
  assumes "lid L \<noteq> i"
  shows "\<exists>pre' post'. remove_last_lid i (pre @ L # post) = pre' @ L # post'
           \<and> set pre' \<subseteq> set pre \<and> set post' \<subseteq> set post"
proof (induction pre)
  case Nil
  have "remove_last_lid i ([] @ L # post) = [] @ L # remove_last_lid i post"
    using assms by simp
  then show ?case using set_remove_last_lid [of i post] by blast
next
  case (Cons x xs)
  then obtain pre' post' where IH: "remove_last_lid i (xs @ L # post) = pre' @ L # post'"
    "set pre' \<subseteq> set xs" "set post' \<subseteq> set post" by blast
  show ?case
  proof (cases "lid x = i \<and> \<not> list_ex (\<lambda>y. lid y = i) (xs @ L # post)")
    case True
    then have "remove_last_lid i ((x # xs) @ L # post) = xs @ L # post" by simp
    moreover have "set xs \<subseteq> set (x # xs)" by auto
    ultimately show ?thesis by blast
  next
    case False
    then have "remove_last_lid i ((x # xs) @ L # post) = (x # pre') @ L # post'"
      using IH(1) by auto
    moreover have "set (x # pre') \<subseteq> set (x # xs)" using IH(2) by auto
    ultimately show ?thesis using IH(3) by blast
  qed
qed

lemma emit_streams:
  "streams (snd (emit t m s)) = snd (call_listeners (listeners s t) m (streams s))"
  by (simp add: emit_def case_prod_beta)

lemma emit_listeners: "listeners (snd (emit t m s)) = listeners s"
  by (simp add: emit_def case_prod_beta)

lemma emit_fst: "fst (emit t m s) = fst (call_listeners (listeners s t) m (streams s))"
  by (simp add: emit_def case_prod_beta)

lemma call_listeners_live:
  assumes pre: "\<forall>l \<in> set pre'. reliable_on l m"
    and L: "reliable_on L m"
    and ids: "lid L \<notin> lid ` set (pre' @ post')"
  shows "snd (call_listeners (pre' @ L # post') m st) (lid L) =
           st (lid L) @ (if passes (accepts L) m then [m] else [])"
proof -
  obtain st1 where p: "call_listeners pre' m st = (None, st1)"
    using call_listeners_reliable [OF pre, of st] by (cases "call_listeners pre' m st") auto
  have "lid L \<notin> lid ` set pre'" using ids by auto
  from call_listeners_other [OF this, of m st] p have st1: "st1 (lid L) = st (lid L)" by simp
  let ?st2 = "if passes (accepts L) m then st1(lid L := st1 (lid L) @ [m]) else st1"
  have "call_listeners (pre' @ L # post') m st = call_listeners post' m ?st2"
    using p by (simp add: call_listeners_append onMessage_reliable [OF L])
  moreover have "lid L \<notin> lid ` set post'" using ids by auto
  then have "snd (call_listeners post' m ?st2) (lid L) = ?st2 (lid L)"
    by (rule call_listeners_other)
  ultimately show ?thesis using st1 by simp
qed

lemma publish_live:
  assumes live: "live_at L topic pre s"
    and rel: "\<forall>l \<in> set (pre @ [L]). reliable_on l m"
  shows "streams (snd (emit topic m s)) (lid L) =
           streams s (lid L) @ (if passes (accepts L) m then [m] else [])"
proof -
  from live obtain pre' post' where reg: "listeners s topic = pre' @ L # post'"
    and sub: "set pre' \<subseteq> set pre" and ids: "lid L \<notin> lid ` set (pre' @ post')"
    unfolding live_at_def by blast
  have "\<forall>l \<in> set pre'. reliable_on l m" using rel sub by auto
  moreover have "reliable_on L m" using rel by simp
  ultimately have "snd (call_listeners (pre' @ L # post') m (streams s)) (lid L) =
           streams s (lid L) @ (if passes (accepts L) m then [m] else [])"
    using ids by (rule call_listeners_live)
  then show ?thesis by (simp add: emit_streams reg)
qed

lemma publish_elsewhere:
  assumes live: "live_at L topic pre s" and t: "t \<noteq> topic"
  shows "streams (snd (emit t m s)) (lid L) = streams s (lid L)"
proof -
  from live t have "lid L \<notin> lid ` set (listeners s t)" unfolding live_at_def by blast
  then have "snd (call_listeners (listeners s t) m (streams s)) (lid L) = streams s (lid L)"
    by (rule call_listeners_other)
  then show ?thesis by (simp add: emit_streams)
qed

lemma live_at_emit: "live_at L topic pre (snd (emit t m s)) = live_at L topic pre s"
  by (simp add: live_at_def emit_listeners)

lemma live_at_step:
  assumes live: "live_at L topic pre s" and keep: "keeps_registered (lid L) a"
  shows "live_at L topic pre (bus_step s a)"
proof (cases a)
  case (Publish t m)
  then show ?thesis using live by (simp add: live_at_emit)
next
  case (Register t l)
  with keep have ne: "lid l \<noteq> lid L" by simp
  from live obtain pre' post' where reg: "listeners s topic = pre' @ L # post'"
    and sub: "set pre' \<subseteq> set pre" and ids: "lid L \<notin> lid ` set (pre' @ post')"
    and others: "\<forall>t. t \<noteq> topic \<longrightarrow> lid L \<notin> lid ` set (listeners s t)"
    unfolding live_at_def by blast
  show ?thesis
  proof (cases "t = topic")
    case True
    have "listeners (bus_step s a) topic = pre' @ L # (post' @ [l])"
      using Register True reg by (simp add: on_def)
    moreover have "lid L \<notin> lid ` set (pre' @ (post' @ [l]))" using ids ne by auto
    moreover have "\<forall>t'. t' \<noteq> topic \<longrightarrow> lid L \<notin> lid ` set (listeners (bus_step s a) t')"
      using Register True others by (simp add: on_def)
    ultimately show ?thesis unfolding live_at_def using sub by blast
  next
    case False
    have "listeners (bus_step s a) topic = pre' @ L # post'"
      using Register False reg by (simp add: on_def)
    moreover have "\<forall>t'. t' \<noteq> topic \<longrightarrow> lid L \<notin> lid ` set (listeners (bus_step s a) t')"
      using Register others ne by (auto simp: on_def)
    ultimately show ?thesis unfolding live_at_def using sub ids by blast
  qed
next
  case (Deregister t i)
  with keep have ne: "lid L \<noteq> i" by simp
  from live obtain pre' post' where reg: "listeners s topic = pre' @ L # post'"
    and sub: "set pre' \<subseteq> set pre" and ids: "lid L \<notin> lid ` set (pre' @ post')"
    and others: "\<forall>t. t \<noteq> topic \<longrightarrow> lid L \<notin> lid ` set (listeners s t)"
    unfolding live_at_def by blast
  show ?thesis
  proof (cases "t = topic")
    case True
    from remove_last_lid_split [OF ne, of pre' post'] obtain pre'' post''
      where r: "remove_last_lid i (pre' @ L # post') = pre'' @ L # post''"
        and s1: "set pre'' \<subseteq> set pre'" and s2: "set post'' \<subseteq> set post'" by blast
    have "listeners (bus_step s a) topic = pre'' @ L # post''"
      using Deregister True reg r by (simp add: off_def)
    moreover have "set pre'' \<subseteq> set pre" using s1 sub by auto
    moreover have "lid L \<notin> lid ` set (pre'' @ post'')" using ids s1 s2 by auto
    moreover have "\<forall>t'. t' \<noteq> topic \<longrightarrow> lid L \<notin> lid ` set (listeners (bus_step s a) t')"
      using Deregister True others by (simp add: off_def)
    ultimately show ?thesis unfolding live_at_def by blast
  next
    case False
    have "listeners (bus_step s a) topic = pre' @ L # post'"
      using Deregister False reg by (simp add: off_def)
    moreover have "\<forall>t'. t' \<noteq> topic \<longrightarrow> lid L \<notin> lid ` set (listeners (bus_step s a) t')"
    proof (intro allI impI)
      fix t' assume t': "t' \<noteq> topic"
      have "set (listeners (bus_step s a) t') \<subseteq> set (listeners s t')"
        using Deregister set_remove_last_lid [of i "listeners s t'"] by (auto simp: off_def)
      with others t' show "lid L \<notin> lid ` set (listeners (bus_step s a) t')" by blast
    qed
    ultimately show ?thesis unfolding live_at_def using sub ids by blast
  qed
qed

lemma stream_step:
  assumes live: "live_at L topic pre s"
    and rel: "\<forall>m \<in> set (published topic [a]). \<forall>l \<in> set (pre @ [L]). reliable_on l m"
  shows "streams (bus_step s a) (lid L) =
           streams s (lid L) @ filter (passes (accepts L)) (published topic [a])"
proof (cases a)
  case (Publish t m)
  show ?thesis
  proof (cases "t = topic")
    case True
    with Publish rel have "\<forall>l \<in> set (pre @ [L]). reliable_on l m" by simp
    from publish_live [OF live this] Publish True show ?thesis by simp
  next
    case False
    from publish_elsewhere [OF live False] Publish False show ?thesis by simp
  qed
next
  case (Register t l)
  then show ?thesis by (simp add: on_def)
next
  case (Deregister t i)
  then show ?thesis by (simp add: off_def)
qed

lemma published_Cons: "published topic (a # acts) = published topic [a] @ published topic acts"
  by (cases a) simp_all

lemma bus_run_Cons: "bus_run s (a # acts) = bus_run (bus_step s a) acts"
  by (simp add: bus_run_def)

lemma live_stream:
  assumes "live_at L topic pre s"
    and "\<forall>a \<in> set acts. keeps_registered (lid L) a"
    and "\<forall>m \<in> set (published topic acts). \<forall>l \<in> set (pre @ [L]). reliable_on l m"
  shows "streams (bus_run s acts) (lid L) =
           streams s (lid L) @ filter (passes (accepts L)) (published topic acts)
         \<and> live_at L topic pre (bus_run s acts)"
  using assms
proof (induction acts arbitrary: s)
  case Nil
  then show ?case by (simp add: bus_run_def)
next
  case (Cons a acts)
  have pub: "published topic (a # acts) = published topic [a] @ published topic acts"
    by (rule published_Cons)
  have rel_a: "\<forall>m \<in> set (published topic [a]). \<forall>l \<in> set (pre @ [L]). reliable_on l m"
    and rel_acts: "\<forall>m \<in> set (published topic acts). \<forall>l \<in> set (pre @ [L]). reliable_on l m"
    using Cons.prems(3) unfolding pub by auto
  have keep_a: "keeps_registered (lid L) a" and keep_acts: "\<forall>a \<in> set acts. keeps_registered (lid L) a"
    using Cons.prems(2) by auto
  have live': "live_at L topic pre (bus_step s a)"
    using Cons.prems(1) keep_a by (rule live_at_step)
  have s1: "streams (bus_step s a) (lid L) =
           streams s (lid L) @ filter (passes (accepts L)) (published topic [a])"
    using Cons.prems(1) rel_a by (rule stream_step)
  from Cons.IH [OF live' keep_acts rel_acts] s1
  show ?case unfolding bus_run_Cons pub by simp
qed

lemma filter_thread_all:
  assumes "\<forall>m \<in> set ms. threadId m = T"
  shows "filter (passes (ThreadFilter T)) ms = ms"
  using assms by (induction ms) auto

text \<open>
  Claim C8, as the code has it. Let \<open>L\<close> be registered on a topic, once, behind the handlers
  \<open>pre\<close>, and let a list of bus operations neither deregister \<open>L\<close> nor register its identity
  again. If \<open>L\<close> and the handlers registered before it do not throw on the events published
  to the topic, then \<open>L\<close> pushes to its subscriber, in publish order and each once, exactly
  the published events that pass its filter. For a thread subscription and events of that
  thread (which is what \<open>send\<close> publishes on a thread topic) these are all of them.
\<close>

theorem C8_live_subscriber_stream:
  assumes reg: "listeners s topic = pre @ L # post"
    and uniq: "lid L \<notin> lid ` set (pre @ post)"
    and others: "\<forall>t. t \<noteq> topic \<longrightarrow> lid L \<notin> lid ` set (listeners s t)"
    and keep: "\<forall>a \<in> set acts. keeps_registered (lid L) a"
    and rel: "\<forall>m \<in> set (published topic acts). \<forall>l \<in> set (pre @ [L]). reliable_on l m"
  shows "streams (bus_run s acts) (lid L) =
           streams s (lid L) @ filter (passes (accepts L)) (published topic acts)
       \<and> (accepts L = ThreadFilter T \<and> (\<forall>m \<in> set (published topic acts). threadId m = T) \<longrightarrow>
            streams (bus_run s acts) (lid L) = streams s (lid L) @ published topic acts)"
proof -
  have "live_at L topic pre s"
    unfolding live_at_def using reg uniq others by blast
  from live_stream [OF this keep rel]
  have main: "streams (bus_run s acts) (lid L) =
           streams s (lid L) @ filter (passes (accepts L)) (published topic acts)" by simp
  then show ?thesis by (auto simp: filter_thread_all)
qed

lemma two_subscribers:
  "listeners (run seeded
      [OnNew \<lparr>user = Some bob\<rparr> ''t1'' (\<lambda>message. True),
       OnNew \<lparr>user = Some alice\<rparr> ''t1'' (\<lambda>message. True)])
   = (\<lambda>topic. [])(''thread:t1'' :=
       [\<lparr>lid = 0, accepts = ThreadFilter ''t1'', next_ok = (\<lambda>message. True)\<rparr>]
       @ \<lparr>lid = 1, accepts = ThreadFilter ''t1'', next_ok = (\<lambda>message. True)\<rparr> # [])"
  by (simp add: eval_defs)

lemma two_subscribers_streams:
  "streams (run seeded
      [OnNew \<lparr>user = Some bob\<rparr> ''t1'' (\<lambda>message. True),
       OnNew \<lparr>user = Some alice\<rparr> ''t1'' (\<lambda>message. True)]) = (\<lambda>i. [])"
  by (simp add: eval_defs)

theorem C8_live_subscriber_stream_witness:
  "streams (bus_run
      (run seeded
        [OnNew \<lparr>user = Some bob\<rparr> ''t1'' (\<lambda>message. True),
         OnNew \<lparr>user = Some alice\<rparr> ''t1'' (\<lambda>message. True)])
      [Publish ''thread:t1'' (event ''m1'' ''t1''),
       Register ''thread:t1'' \<lparr>lid = 2, accepts = ThreadFilter ''t1'', next_ok = (\<lambda>message. False)\<rparr>,
       Publish ''thread:t1'' (event ''m2'' ''t1''),
       Deregister ''thread:t1'' 0,
       Publish ''message:new'' (event ''m2'' ''t1''),
       Publish ''thread:t1'' (event ''m3'' ''t1'')]) 1
   = [event ''m1'' ''t1'', event ''m2'' ''t1'', event ''m3'' ''t1'']"
proof -
  let ?s = "run seeded
        [OnNew \<lparr>user = Some bob\<rparr> ''t1'' (\<lambda>message. True),
         OnNew \<lparr>user = Some alice\<rparr> ''t1'' (\<lambda>message. True)]"
  let ?acts = "[Publish ''thread:t1'' (event ''m1'' ''t1''),
       Register ''thread:t1'' \<lparr>lid = 2, accepts = ThreadFilter ''t1'', next_ok = (\<lambda>message. False)\<rparr>,
       Publish ''thread:t1'' (event ''m2'' ''t1''),
       Deregister ''thread:t1'' 0,
       Publish ''message:new'' (event ''m2'' ''t1''),
       Publish ''thread:t1'' (event ''m3'' ''t1'')]"
  let ?l0 = "\<lparr>lid = 0, accepts = ThreadFilter ''t1'', next_ok = (\<lambda>message. True)\<rparr>"
  let ?L = "\<lparr>lid = 1, accepts = ThreadFilter ''t1'', next_ok = (\<lambda>message. True)\<rparr>"
  have reg: "listeners ?s ''thread:t1'' = [?l0] @ ?L # []"
    by (simp add: two_subscribers)
  have uniq: "lid ?L \<notin> lid ` set ([?l0] @ [])" by simp
  have others: "\<forall>t. t \<noteq> ''thread:t1'' \<longrightarrow> lid ?L \<notin> lid ` set (listeners ?s t)"
    by (simp add: two_subscribers)
  have keep: "\<forall>a \<in> set ?acts. keeps_registered (lid ?L) a" by simp
  have rel: "\<forall>m \<in> set (published ''thread:t1'' ?acts). \<forall>l \<in> set ([?l0] @ [?L]). reliable_on l m"
    by (simp add: reliable_on_def)
  have thread: "accepts ?L = ThreadFilter ''t1''
      \<and> (\<forall>m \<in> set (published ''thread:t1'' ?acts). threadId m = ''t1'')"
    by (simp add: event_def)
  from C8_live_subscriber_stream [OF reg uniq others keep rel, of "''t1''"] thread
  have "streams (bus_run ?s ?acts) (lid ?L) = streams ?s (lid ?L) @ published ''thread:t1'' ?acts"
    by blast
  then show ?thesis by (simp add: two_subscribers_streams)
qed

text \<open>
  The claim as written fails on the global channel: alice is subscribed through
  \<open>onAnyNew\<close> with the membership set \<open>{t1}\<close>; of the two events published to
  \<open>message:new\<close> she receives only the one of thread \<open>t1\<close>. It also fails on a thread
  topic when a handler registered earlier throws: with alice's throwing handler registered
  before bob's, bob receives nothing of the event published to \<open>thread:t1\<close>.
\<close>

theorem C8_global_channel_counterexample:
  "streams (bus_run
      (snd (onAnyNew \<lparr>user = Some alice\<rparr> (\<lambda>message. True) seeded))
      [Publish ''message:new'' (event ''m1'' ''t1''),
       Publish ''message:new'' (event ''m2'' ''t2'')]) 0
   = [event ''m1'' ''t1'']
   \<and> published ''message:new''
      [Publish ''message:new'' (event ''m1'' ''t1''),
       Publish ''message:new'' (event ''m2'' ''t2'')]
   = [event ''m1'' ''t1'', event ''m2'' ''t2'']
   \<and> listeners (snd (onAnyNew \<lparr>user = Some alice\<rparr> (\<lambda>message. True) seeded)) ''message:new''
   = [\<lparr>lid = 0, accepts = MembershipFilter {''t1''}, next_ok = (\<lambda>message. True)\<rparr>]
   \<and> streams (bus_run
      (run seeded
        [OnNew \<lparr>user = Some alice\<rparr> ''t1'' (\<lambda>message. False),
         OnNew \<lparr>user = Some bob\<rparr> ''t1'' (\<lambda>message. True)])
      [Publish ''thread:t1'' (event ''m1'' ''t1'')]) 1
   = []
   \<and> map lid (listeners
      (run seeded
        [OnNew \<lparr>user = Some alice\<rparr> ''t1'' (\<lambda>message. False),
         OnNew \<lparr>user = Some bob\<rparr> ''t1'' (\<lambda>message. True)]) ''thread:t1'')
   = [0, 1]"
  by (simp add: eval_defs bus_run_def event_def)


section \<open>Properties of the membership snapshot\<close>

lemma snapshot_inv_db:
  assumes "listeners s' = listeners s \<and> streams s' = streams s \<and> nextListener s' = nextListener s"
    and "snapshot_inv i S s"
  shows "snapshot_inv i S s'"
  using assms unfolding snapshot_inv_def by simp

lemma onMessage_snapshot:
  assumes "lid l = i \<longrightarrow> accepts l = MembershipFilter S"
    and "\<forall>m \<in> set (st i). threadId m \<in> S"
  shows "\<forall>m \<in> set (snd (onMessage l e st) i). threadId m \<in> S"
  using assms by (auto simp: onMessage_def)

lemma call_listeners_snapshot:
  assumes "\<forall>l \<in> set ls. lid l = i \<longrightarrow> accepts l = MembershipFilter S"
    and "\<forall>m \<in> set (st i). threadId m \<in> S"
  shows "\<forall>m \<in> set (snd (call_listeners ls e st) i). threadId m \<in> S"
  using assms
proof (induction ls arbitrary: st)
  case Nil
  then show ?case by simp
next
  case (Cons l ls)
  have l: "lid l = i \<longrightarrow> accepts l = MembershipFilter S" using Cons.prems(1) by simp
  have rest: "\<forall>x \<in> set ls. lid x = i \<longrightarrow> accepts x = MembershipFilter S" using Cons.prems(1) by simp
  obtain r st' where om: "onMessage l e st = (r, st')" by (cases "onMessage l e st")
  have st': "\<forall>m \<in> set (st' i). threadId m \<in> S"
    using onMessage_snapshot [where l = l and i = i and S = S and st = st and e = e, OF l Cons.prems(2)] om
    by simp
  show ?case
  proof (cases r)
    case None
    have "\<forall>m \<in> set (snd (call_listeners ls e st') i). threadId m \<in> S"
      using rest st' by (rule Cons.IH)
    with om None show ?thesis by simp
  next
    case (Some exn)
    with om st' show ?thesis by simp
  qed
qed

lemma emit_nextListener: "nextListener (snd (emit t m s)) = nextListener s"
  by (simp add: emit_def case_prod_beta)

lemma emit_snapshot:
  assumes "snapshot_inv i S s"
  shows "snapshot_inv i S (snd (emit t m s))"
proof -
  from assms have a: "\<forall>l \<in> set (listeners s t). lid l = i \<longrightarrow> accepts l = MembershipFilter S"
    and b: "\<forall>m \<in> set (streams s i). threadId m \<in> S"
    unfolding snapshot_inv_def by blast+
  have "\<forall>x \<in> set (snd (call_listeners (listeners s t) m (streams s)) i). threadId x \<in> S"
    using a b by (rule call_listeners_snapshot)
  then have "\<forall>x \<in> set (streams (snd (emit t m s)) i). threadId x \<in> S"
    by (simp add: emit_streams)
  with assms show ?thesis unfolding snapshot_inv_def by (simp add: emit_listeners emit_nextListener)
qed

lemma send_emit_snapshot:
  assumes "snapshot_inv i S s"
  shows "snapshot_inv i S (snd (send_emit thread m s))"
proof -
  let ?t = "''thread:'' @ thread"
  have s1: "snapshot_inv i S (snd (emit ?t m s))" using assms by (rule emit_snapshot)
  then have s2: "snapshot_inv i S (snd (emit ''message:new'' m (snd (emit ?t m s))))"
    by (rule emit_snapshot)
  show ?thesis
  proof (cases "emit ?t m s")
    case (Pair r1 s')
    show ?thesis
    proof (cases r1)
      case (Some exn)
      with Pair s1 show ?thesis by (simp add: send_emit_def)
    next
      case None
      with Pair s2 show ?thesis
        by (cases "emit ''message:new'' m s'") (auto simp: send_emit_def split: option.splits)
    qed
  qed
qed

lemma message_create_fields:
  assumes "message_create c thread senderId newId created s = Inr (message, s1)"
  shows "listeners s1 = listeners s \<and> streams s1 = streams s \<and> nextListener s1 = nextListener s"
  using assms by (auto simp: message_create_def split: option.splits if_splits)

lemma thread_update_fields:
  assumes "thread_update thread now s = Inr s2"
  shows "listeners s2 = listeners s \<and> streams s2 = streams s \<and> nextListener s2 = nextListener s"
  using assms by (auto simp: thread_update_def split: if_splits)

lemma send_resolver_cases:
  "snd (send_resolver u input newId created now s) = s
   \<or> (\<exists>message s1. message_create (var_content input) (var_threadId input) (userId u) newId created s
           = Inr (message, s1)
        \<and> (snd (send_resolver u input newId created now s) = s1
           \<or> (\<exists>s2 m. thread_update (var_threadId input) now s1 = Inr s2
                \<and> snd (send_resolver u input newId created now s) = snd (send_emit (var_threadId input) m s2))))"
  unfolding send_resolver_def
  by (auto split: option.splits sum.splits prod.splits)

lemma send_resolver_snapshot:
  assumes inv: "snapshot_inv i S s"
  shows "snapshot_inv i S (snd (send_resolver u input newId created now s))"
proof -
  let ?s' = "snd (send_resolver u input newId created now s)"
  from send_resolver_cases [of u input newId created now s]
  consider "?s' = s"
    | message s1 where "message_create (var_content input) (var_threadId input) (userId u) newId created s
           = Inr (message, s1)" "?s' = s1"
    | message s1 s2 m where "message_create (var_content input) (var_threadId input) (userId u) newId created s
           = Inr (message, s1)" "thread_update (var_threadId input) now s1 = Inr s2"
        "?s' = snd (send_emit (var_threadId input) m s2)"
    by blast
  then show ?thesis
  proof cases
    case 1
    with inv show ?thesis by simp
  next
    case 2
    from message_create_fields [OF 2(1)] inv have "snapshot_inv i S s1"
      by (rule snapshot_inv_db)
    with 2(2) show ?thesis by simp
  next
    case 3
    from message_create_fields [OF 3(1)] inv have "snapshot_inv i S s1"
      by (rule snapshot_inv_db)
    with thread_update_fields [OF 3(2)] have "snapshot_inv i S s2"
      by (rule snapshot_inv_db)
    then have "snapshot_inv i S (snd (send_emit (var_threadId input) m s2))"
      by (rule send_emit_snapshot)
    with 3(3) show ?thesis by simp
  qed
qed

lemma send_snapshot:
  assumes "snapshot_inv i S s"
  shows "snapshot_inv i S (snd (send ctx input newId created now s))"
  using assms send_resolver_snapshot [OF assms]
  by (simp add: send_def split: option.splits)

lemma thread_create_snapshot:
  assumes "snapshot_inv i S s"
  shows "snapshot_inv i S (snd (thread_create ctx uname newThreadId now s))"
proof -
  have "listeners (snd (thread_create ctx uname newThreadId now s)) = listeners s
      \<and> streams (snd (thread_create ctx uname newThreadId now s)) = streams s
      \<and> nextListener (snd (thread_create ctx uname newThreadId now s)) = nextListener s"
    by (simp add: thread_create_def thread_create_resolver_def split: option.splits)
  then show ?thesis using assms by (rule snapshot_inv_db)
qed

lemma subscribe_listener_snapshot:
  assumes inv: "snapshot_inv i S s"
  shows "snapshot_inv i S (snd (subscribe_listener topic flt observer s))"
proof -
  let ?new = "\<lparr>lid = nextListener s, accepts = flt, next_ok = observer\<rparr>"
  let ?s' = "snd (subscribe_listener topic flt observer s)"
  from inv have i: "i < nextListener s"
    and old: "\<forall>t. \<forall>l \<in> set (listeners s t). lid l < nextListener s"
    and flt: "\<forall>t. \<forall>l \<in> set (listeners s t). lid l = i \<longrightarrow> accepts l = MembershipFilter S"
    and str: "\<forall>m \<in> set (streams s i). threadId m \<in> S"
    unfolding snapshot_inv_def by blast+
  have nl: "nextListener ?s' = Suc (nextListener s)" and st: "streams ?s' = streams s"
    by (simp_all add: subscribe_listener_def on_def)
  have ls: "\<And>t. set (listeners ?s' t) \<subseteq> insert ?new (set (listeners s t))"
    by (auto simp: subscribe_listener_def on_def)
  have c1: "i < nextListener ?s'" using i by (simp add: nl)
  have c2: "\<forall>t. \<forall>l \<in> set (listeners ?s' t). lid l < nextListener ?s'"
  proof (intro allI ballI)
    fix t l assume "l \<in> set (listeners ?s' t)"
    with ls [of t] have "l = ?new \<or> l \<in> set (listeners s t)" by auto
    then show "lid l < nextListener ?s'" using old nl by (auto simp: less_Suc_eq)
  qed
  have c3: "\<forall>t. \<forall>l \<in> set (listeners ?s' t). lid l = i \<longrightarrow> accepts l = MembershipFilter S"
  proof (intro allI ballI impI)
    fix t l assume "l \<in> set (listeners ?s' t)" and li: "lid l = i"
    with ls [of t] have "l = ?new \<or> l \<in> set (listeners s t)" by auto
    then show "accepts l = MembershipFilter S"
    proof
      assume "l = ?new"
      then have "lid l = nextListener s" by simp
      with li i show ?thesis by simp
    next
      assume "l \<in> set (listeners s t)"
      with flt li show ?thesis by blast
    qed
  qed
  have c4: "\<forall>m \<in> set (streams ?s' i). threadId m \<in> S" using str by (simp add: st)
  show ?thesis unfolding snapshot_inv_def using c1 c2 c3 c4 by blast
qed

lemma onNew_snapshot:
  assumes "snapshot_inv i S s"
  shows "snapshot_inv i S (snd (onNew ctx thread observer s))"
  using assms subscribe_listener_snapshot [OF assms]
  by (simp add: onNew_def case_prod_beta split: option.splits)

lemma onAnyNew_snapshot:
  assumes "snapshot_inv i S s"
  shows "snapshot_inv i S (snd (onAnyNew ctx observer s))"
  using assms subscribe_listener_snapshot [OF assms]
  by (simp add: onAnyNew_def case_prod_beta Let_def split: option.splits)

lemma unsubscribe_snapshot:
  assumes inv: "snapshot_inv i S s"
  shows "snapshot_inv i S (unsubscribe sub s)"
proof -
  let ?s' = "unsubscribe sub s"
  from inv have i: "i < nextListener s"
    and old: "\<forall>t. \<forall>l \<in> set (listeners s t). lid l < nextListener s"
    and flt: "\<forall>t. \<forall>l \<in> set (listeners s t). lid l = i \<longrightarrow> accepts l = MembershipFilter S"
    and str: "\<forall>m \<in> set (streams s i). threadId m \<in> S"
    unfolding snapshot_inv_def by blast+
  have ls: "\<And>t. set (listeners ?s' t) \<subseteq> set (listeners s t)"
    using set_remove_last_lid by (auto simp: unsubscribe_def off_def)
  have st: "streams ?s' = streams s" and nl: "nextListener ?s' = nextListener s"
    by (simp_all add: unsubscribe_def off_def)
  have c1: "i < nextListener ?s'" using i by (simp add: nl)
  have c2: "\<forall>t. \<forall>l \<in> set (listeners ?s' t). lid l < nextListener ?s'"
    unfolding nl using ls old by blast
  have c3: "\<forall>t. \<forall>l \<in> set (listeners ?s' t). lid l = i \<longrightarrow> accepts l = MembershipFilter S"
    using ls flt by blast
  have c4: "\<forall>m \<in> set (streams ?s' i). threadId m \<in> S" using str by (simp add: st)
  show ?thesis unfolding snapshot_inv_def using c1 c2 c3 c4 by blast
qed

lemma step_snapshot:
  assumes "snapshot_inv i S s"
  shows "snapshot_inv i S (step s a)"
  using assms
  by (cases a)
    (simp_all add: send_snapshot thread_create_snapshot onNew_snapshot onAnyNew_snapshot
      unsubscribe_snapshot)

lemma run_snapshot:
  assumes "snapshot_inv i S s"
  shows "snapshot_inv i S (run s acts)"
  using assms
proof (induction acts arbitrary: s)
  case Nil
  then show ?case by (simp add: run_def)
next
  case (Cons a acts)
  from Cons.IH [OF step_snapshot [OF Cons.prems]] show ?case by (simp add: run_def)
qed

lemma onAnyNew_establishes:
  assumes wf: "wf_server s0"
    and u: "user ctx = Some u"
    and sub: "onAnyNew ctx observer s0 = (Inr sub, s1)"
  shows "snapshot_inv (sub_lid sub) (getUserThreadIds u s0) s1 \<and> sub_lid sub = nextListener s0"
proof -
  from sub u have lid: "sub_lid sub = nextListener s0"
    and s1: "s1 = on ''message:new''
        \<lparr>lid = nextListener s0, accepts = MembershipFilter (getUserThreadIds u s0), next_ok = observer\<rparr>
        (s0\<lparr>nextListener := Suc (nextListener s0)\<rparr>)"
    by (auto simp: onAnyNew_def subscribe_listener_def Let_def)
  from wf have old: "\<forall>t. \<forall>l \<in> set (listeners s0 t). lid l < nextListener s0"
    and empty: "streams s0 (nextListener s0) = []"
    unfolding wf_server_def by auto
  let ?i = "nextListener s0" and ?S = "getUserThreadIds u s0"
  have nl: "nextListener s1 = Suc ?i" and st: "streams s1 = streams s0"
    by (simp_all add: s1 on_def)
  have ls: "\<And>t. set (listeners s1 t) \<subseteq>
      insert \<lparr>lid = ?i, accepts = MembershipFilter ?S, next_ok = observer\<rparr> (set (listeners s0 t))"
    by (auto simp: s1 on_def)
  have c1: "?i < nextListener s1" by (simp add: nl)
  have c2: "\<forall>t. \<forall>l \<in> set (listeners s1 t). lid l < nextListener s1"
  proof (intro allI ballI)
    fix t l assume "l \<in> set (listeners s1 t)"
    with ls [of t] have "l = \<lparr>lid = ?i, accepts = MembershipFilter ?S, next_ok = observer\<rparr>
        \<or> l \<in> set (listeners s0 t)" by auto
    then show "lid l < nextListener s1" using old nl by (auto simp: less_Suc_eq)
  qed
  have c3: "\<forall>t. \<forall>l \<in> set (listeners s1 t). lid l = ?i \<longrightarrow> accepts l = MembershipFilter ?S"
  proof (intro allI ballI impI)
    fix t l assume "l \<in> set (listeners s1 t)" and i: "lid l = ?i"
    with ls [of t] have "l = \<lparr>lid = ?i, accepts = MembershipFilter ?S, next_ok = observer\<rparr>
        \<or> l \<in> set (listeners s0 t)" by auto
    then show "accepts l = MembershipFilter ?S"
    proof
      assume "l = \<lparr>lid = ?i, accepts = MembershipFilter ?S, next_ok = observer\<rparr>"
      then show ?thesis by simp
    next
      assume "l \<in> set (listeners s0 t)"
      with old have "lid l < ?i" by blast
      with i show ?thesis by simp
    qed
  qed
  have c4: "\<forall>m \<in> set (streams s1 ?i). threadId m \<in> ?S" by (simp add: st empty)
  have "snapshot_inv ?i ?S s1"
    unfolding snapshot_inv_def using c1 c2 c3 c4 by blast
  with lid show ?thesis by simp
qed

text \<open>
  Claim C2. Let \<open>onAnyNew\<close> succeed for user \<open>u\<close> in a well-formed state \<open>s0\<close>. Whatever
  requests follow (sends, thread creations, further subscriptions, cleanups), a handler
  registered under the identity of this subscription filters by the thread ids \<open>u\<close> had in
  \<open>s0\<close>, every event pushed on the subscription belongs to one of those threads, and so
  for a thread \<open>T\<close> of which \<open>u\<close> was not a participant in \<open>s0\<close> no event of \<open>T\<close> is ever
  pushed on it, also after \<open>u\<close> has become a participant of \<open>T\<close>.
\<close>

theorem C2_membership_snapshot:
  assumes wf: "wf_server s0"
    and u: "user ctx = Some u"
    and sub: "onAnyNew ctx observer s0 = (Inr sub, s1)"
  shows "(\<forall>t. \<forall>l \<in> set (listeners (run s1 acts) t).
            lid l = sub_lid sub \<longrightarrow> accepts l = MembershipFilter (getUserThreadIds u s0))
       \<and> (\<forall>m \<in> set (streams (run s1 acts) (sub_lid sub)). threadId m \<in> getUserThreadIds u s0)
       \<and> ((userId u, T) \<notin> set (threadParticipants s0) \<longrightarrow>
            (\<forall>m \<in> set (streams (run s1 acts) (sub_lid sub)). threadId m \<noteq> T))"
proof -
  from onAnyNew_establishes [OF wf u sub]
  have "snapshot_inv (sub_lid sub) (getUserThreadIds u s0) s1" by blast
  then have inv: "snapshot_inv (sub_lid sub) (getUserThreadIds u s0) (run s1 acts)"
    by (rule run_snapshot)
  have "T \<notin> getUserThreadIds u s0" if "(userId u, T) \<notin> set (threadParticipants s0)"
    using that by (auto simp: getUserThreadIds_def)
  with inv show ?thesis unfolding snapshot_inv_def by blast
qed

lemma wf_seeded: "wf_server seeded"
  by (simp add: wf_server_def seeded_def)

lemma bob_subscribes:
  "onAnyNew \<lparr>user = Some bob\<rparr> (\<lambda>message. True) seeded =
     (Inr \<lparr>sub_topic = ''message:new'', sub_lid = 0\<rparr>,
      snd (onAnyNew \<lparr>user = Some bob\<rparr> (\<lambda>message. True) seeded))"
  by (simp add: prod_eq_iff onAnyNew_def subscribe_listener_def seeded_def Let_def)

theorem C2_membership_snapshot_witness:
  "streams (run (snd (onAnyNew \<lparr>user = Some bob\<rparr> (\<lambda>message. True) seeded))
      [Send \<lparr>user = Some alice\<rparr> \<lparr>var_threadId = ''t1'', var_content = [0x68, 0x69]\<rparr> ''m1'' 10 11,
       ThreadCreate \<lparr>user = Some charlie\<rparr> ''bob'' ''t2'' 15,
       Send \<lparr>user = Some charlie\<rparr> \<lparr>var_threadId = ''t2'', var_content = [0x79, 0x6F]\<rparr> ''m2'' 20 21,
       OnAnyNew \<lparr>user = Some bob\<rparr> (\<lambda>message. True),
       Send \<lparr>user = Some charlie\<rparr> \<lparr>var_threadId = ''t2'', var_content = [0x79, 0x6F]\<rparr> ''m3'' 30 31]) 0
   = [\<lparr>id_m = ''m1'', content = [0x68, 0x69], createdAt = 10, threadId = ''t1'',
       sender = \<lparr>user_id = ''u-alice'', username = ''alice''\<rparr>\<rparr>]
   \<and> streams (run (snd (onAnyNew \<lparr>user = Some bob\<rparr> (\<lambda>message. True) seeded))
      [Send \<lparr>user = Some alice\<rparr> \<lparr>var_threadId = ''t1'', var_content = [0x68, 0x69]\<rparr> ''m1'' 10 11,
       ThreadCreate \<lparr>user = Some charlie\<rparr> ''bob'' ''t2'' 15,
       Send \<lparr>user = Some charlie\<rparr> \<lparr>var_threadId = ''t2'', var_content = [0x79, 0x6F]\<rparr> ''m2'' 20 21,
       OnAnyNew \<lparr>user = Some bob\<rparr> (\<lambda>message. True),
       Send \<lparr>user = Some charlie\<rparr> \<lparr>var_threadId = ''t2'', var_content = [0x79, 0x6F]\<rparr> ''m3'' 30 31]) 1
   = [\<lparr>id_m = ''m3'', content = [0x79, 0x6F], createdAt = 30, threadId = ''t2'',
       sender = \<lparr>user_id = ''u-charlie'', username = ''charlie''\<rparr>\<rparr>]
   \<and> threadParticipants (run (snd (onAnyNew \<lparr>user = Some bob\<rparr> (\<lambda>message. True) seeded))
      [Send \<lparr>user = Some alice\<rparr> \<lparr>var_threadId = ''t1'', var_content = [0x68, 0x69]\<rparr> ''m1'' 10 11,
       ThreadCreate \<lparr>user = Some charlie\<rparr> ''bob'' ''t2'' 15,
       Send \<lparr>user = Some charlie\<rparr> \<lparr>var_threadId = ''t2'', var_content = [0x79, 0x6F]\<rparr> ''m2'' 20 21,
       OnAnyNew \<lparr>user = Some bob\<rparr> (\<lambda>message. True),
       Send \<lparr>user = Some charlie\<rparr> \<lparr>var_threadId = ''t2'', var_content = [0x79, 0x6F]\<rparr> ''m3'' 30 31])
   = [(''u-alice'', ''t1''), (''u-bob'', ''t1''), (''u-charlie'', ''t2''), (''u-bob'', ''t2'')]"
proof -
  let ?s1 = "snd (onAnyNew \<lparr>user = Some bob\<rparr> (\<lambda>message. True) seeded)"
  let ?acts = "[Send \<lparr>user = Some alice\<rparr> \<lparr>var_threadId = ''t1'', var_content = [0x68, 0x69]\<rparr> ''m1'' 10 11,
       ThreadCreate \<lparr>user = Some charlie\<rparr> ''bob'' ''t2'' 15,
       Send \<lparr>user = Some charlie\<rparr> \<lparr>var_threadId = ''t2'', var_content = [0x79, 0x6F]\<rparr> ''m2'' 20 21,
       OnAnyNew \<lparr>user = Some bob\<rparr> (\<lambda>message. True),
       Send \<lparr>user = Some charlie\<rparr> \<lparr>var_threadId = ''t2'', var_content = [0x79, 0x6F]\<rparr> ''m3'' 30 31]"
  have u: "user \<lparr>user = Some bob\<rparr> = Some bob" by simp
  have np: "(userId bob, ''t2'') \<notin> set (threadParticipants seeded)"
    by (simp add: bob_def seeded_def)
  have snapshot: "\<forall>m \<in> set (streams (run ?s1 ?acts) (sub_lid \<lparr>sub_topic = ''message:new'', sub_lid = 0\<rparr>)).
      threadId m \<noteq> ''t2''"
    using C2_membership_snapshot [OF wf_seeded u bob_subscribes, of ?acts "''t2''"] np by blast
  have st0: "streams (run ?s1 ?acts) 0 = [\<lparr>id_m = ''m1'', content = [0x68, 0x69], createdAt = 10,
       threadId = ''t1'', sender = \<lparr>user_id = ''u-alice'', username = ''alice''\<rparr>\<rparr>]"
    by (simp add: eval_defs)
  have st1: "streams (run ?s1 ?acts) 1 = [\<lparr>id_m = ''m3'', content = [0x79, 0x6F], createdAt = 30,
       threadId = ''t2'', sender = \<lparr>user_id = ''u-charlie'', username = ''charlie''\<rparr>\<rparr>]"
    by (simp add: eval_defs)
  have tp: "threadParticipants (run ?s1 ?acts)
     = [(''u-alice'', ''t1''), (''u-bob'', ''t1''), (''u-charlie'', ''t2''), (''u-bob'', ''t2'')]"
    by (simp add: eval_defs)
  from snapshot st0 st1 tp show ?thesis by simp
qed

end
